theory Spec2Isabelle
  imports Complex_Main
begin

section \<open>InputSlots: the resizable semaphore\<close>

text \<open>
  \<^verbatim>\<open>InputSlots\<close> of \<^verbatim>\<open>container_io_manager.py\<close>. Python's unbounded integers are
  \<^typ>\<open>int\<close>. The field \<^verbatim>\<open>value\<close> is named \<open>slot_value\<close> and the field \<^verbatim>\<open>closed\<close> is named
  \<open>closed_flag\<close> here. The waiter is an
  \<^verbatim>\<open>asyncio.Future\<close> that only two parties touch: the task parked in \<^verbatim>\<open>acquire\<close>
  (whose cancellation cancels the future) and \<^verbatim>\<open>_wake_waiter\<close> (which resolves it
  and drops the reference in the same step), so while the semaphore refers to it the
  future is either pending or cancelled. A call of \<^verbatim>\<open>set_result\<close> is an effect on the
  parked task; the operations return it as an event beside the new state.
\<close>

datatype waiter_future = Pending | Cancelled

datatype slot_event = SetResult

record InputSlots =
  active :: int
  slot_value :: int
  waiter :: "waiter_future option"
  closed_flag :: bool

definition InputSlots_init :: "int \<Rightarrow> InputSlots" where
  "InputSlots_init v = \<lparr>active = 0, slot_value = v, waiter = None, closed_flag = False\<rparr>"

text \<open>
  \<^verbatim>\<open>acquire\<close> either returns at once, or creates the waiter future and suspends on it,
  or raises \<^verbatim>\<open>RuntimeError\<close> when a waiter is already parked.
\<close>

datatype acquire_result = Acquired InputSlots | Parked InputSlots | RuntimeError

definition acquire :: "InputSlots \<Rightarrow> acquire_result" where
  "acquire s =
     (if active s < slot_value s then Acquired (s\<lparr>active := active s + 1\<rparr>)
      else if waiter s = None then Parked (s\<lparr>waiter := Some Pending\<rparr>)
      else RuntimeError)"

definition wake_waiter :: "InputSlots \<Rightarrow> InputSlots \<times> slot_event list" where
  "wake_waiter s =
     (if active s < slot_value s \<and> waiter s \<noteq> None then
        (s\<lparr>waiter := None, active := active s + 1\<rparr>,
         if waiter s \<noteq> Some Cancelled then [SetResult] else [])
      else (s, []))"

definition release :: "InputSlots \<Rightarrow> InputSlots \<times> slot_event list" where
  "release s = wake_waiter (s\<lparr>active := active s - 1\<rparr>)"

definition set_value :: "InputSlots \<Rightarrow> int \<Rightarrow> InputSlots \<times> slot_event list" where
  "set_value s v =
     (if closed_flag s then (s, [])
      else wake_waiter (s\<lparr>slot_value := v\<rparr>))"

text \<open>
  \<^verbatim>\<open>close\<close> sets the flag and then acquires \<^verbatim>\<open>range(self.value)\<close> times; the range is
  evaluated once, after the flag is set. An acquire that parks suspends the whole
  coroutine: the result then carries the number of acquires still to run after the
  parked one is woken, and \<open>close_loop\<close> resumes from there.
\<close>

datatype close_result = CloseReturned InputSlots | CloseParked nat InputSlots | CloseRaised

fun close_loop :: "nat \<Rightarrow> InputSlots \<Rightarrow> close_result" where
  "close_loop 0 s = CloseReturned s"
| "close_loop (Suc k) s =
     (case acquire s of
        Acquired s' \<Rightarrow> close_loop k s'
      | Parked s' \<Rightarrow> CloseParked k s'
      | RuntimeError \<Rightarrow> CloseRaised)"

definition close :: "InputSlots \<Rightarrow> close_result" where
  "close s = close_loop (nat (slot_value s)) (s\<lparr>closed_flag := True\<rparr>)"

text \<open>
  The states the semaphore can be in: those its operations produce from a fresh
  instance, one atomic step (the code between two suspension points) at a time. Besides
  the methods, the task parked in \<^verbatim>\<open>acquire\<close> may be cancelled, which cancels the
  future it awaits.
\<close>

inductive slots_reachable :: "InputSlots \<Rightarrow> bool" where
  reach_init: "slots_reachable (InputSlots_init v)"
| reach_acquired: "slots_reachable s \<Longrightarrow> acquire s = Acquired s' \<Longrightarrow> slots_reachable s'"
| reach_parked: "slots_reachable s \<Longrightarrow> acquire s = Parked s' \<Longrightarrow> slots_reachable s'"
| reach_release: "slots_reachable s \<Longrightarrow> slots_reachable (fst (release s))"
| reach_set_value: "slots_reachable s \<Longrightarrow> slots_reachable (fst (set_value s v))"
| reach_closed: "slots_reachable s \<Longrightarrow> slots_reachable (s\<lparr>closed_flag := True\<rparr>)"
| reach_cancelled:
    "slots_reachable s \<Longrightarrow> waiter s = Some Pending \<Longrightarrow>
     slots_reachable (s\<lparr>waiter := Some Cancelled\<rparr>)"

section \<open>The manager's concurrency settings\<close>

text \<open>
  The fields of \<^verbatim>\<open>_ContainerIOManager\<close> that \<^verbatim>\<open>set_input_concurrency\<close> and
  \<^verbatim>\<open>_dynamic_concurrency_loop\<close> read or write. The class method works on the
  singleton, which may be absent: \<^verbatim>\<open>assert io_manager\<close> then raises.
\<close>

record ConcurrencyState =
  max_concurrency :: int
  target_concurrency :: int
  stop_concurrency_loop :: bool
  input_slots :: InputSlots

datatype manager_error = AssertionError

text \<open>
  \<^verbatim>\<open>_init\<close>, as far as these fields go: a PTY shell runs one input at a time; otherwise
  the function definition's \<^verbatim>\<open>max_concurrent_inputs\<close> and \<^verbatim>\<open>target_concurrent_inputs\<close>
  are used, where Python's \<^verbatim>\<open>or\<close> replaces a zero by the default.
\<close>

definition concurrency_init :: "bool \<Rightarrow> int \<Rightarrow> int \<Rightarrow> ConcurrencyState" where
  "concurrency_init pty_shell max_concurrent_inputs target_concurrent_inputs =
     (let max_c = (if pty_shell then 1
                   else if max_concurrent_inputs \<noteq> 0 then max_concurrent_inputs else 1);
          target_c = (if pty_shell then 1
                      else if target_concurrent_inputs \<noteq> 0 then target_concurrent_inputs
                      else max_c)
      in \<lparr>max_concurrency = max_c, target_concurrency = target_c,
          stop_concurrency_loop = False, input_slots = InputSlots_init target_c\<rparr>)"

definition set_input_concurrency ::
    "ConcurrencyState option \<Rightarrow> int \<Rightarrow> manager_error + ConcurrencyState \<times> slot_event list" where
  "set_input_concurrency singleton concurrency =
     (case singleton of
        None \<Rightarrow> Inl AssertionError
      | Some io_manager \<Rightarrow>
          (let m1 = io_manager\<lparr>stop_concurrency_loop := True\<rparr>;
               c = min concurrency (max_concurrency m1);
               (slots, evs) = set_value (input_slots m1) c
           in Inr (m1\<lparr>input_slots := slots\<rparr>, evs)))"

text \<open>
  One round of \<^verbatim>\<open>_dynamic_concurrency_loop\<close> has two atomic parts around the RPC it
  awaits: the \<^verbatim>\<open>while\<close> test, and the handling of the response, which reads the flag and
  the semaphore again.
\<close>

definition loop_continues :: "ConcurrencyState \<Rightarrow> bool" where
  "loop_continues m = (\<not> stop_concurrency_loop m)"

definition loop_response :: "ConcurrencyState \<Rightarrow> int \<Rightarrow> ConcurrencyState \<times> slot_event list" where
  "loop_response m resp_concurrency =
     (if resp_concurrency \<noteq> slot_value (input_slots m) \<and> \<not> stop_concurrency_loop m then
        (let (slots, evs) = set_value (input_slots m) resp_concurrency
         in (m\<lparr>input_slots := slots\<rparr>, evs))
      else (m, []))"

section \<open>Text that the code formats\<close>

text \<open>
  Python's \<^verbatim>\<open>str(n)\<close> for the integers that f-strings interpolate: decimal digits,
  with a minus sign for a negative number.
\<close>

definition digit_char :: "nat \<Rightarrow> char" where
  "digit_char d = char_of (48 + d)"

function str_nat :: "nat \<Rightarrow> string" where
  "str_nat n = (if n < 10 then [digit_char n] else str_nat (n div 10) @ [digit_char (n mod 10)])"
  by pat_completeness auto
termination
  by (relation "measure id") auto

declare str_nat.simps [simp del]

definition str_int :: "int \<Rightarrow> string" where
  "str_int i = (if i < 0 then CHR ''-'' # str_nat (nat (- i)) else str_nat (nat i))"

text \<open>
  The slice \<^verbatim>\<open>s[:k]\<close>: the first \<open>k\<close> items, and for a negative \<open>k\<close> all but the last
  \<open>-k\<close> items.
\<close>

definition slice_to :: "'a list \<Rightarrow> int \<Rightarrow> 'a list" where
  "slice_to xs k = (if 0 \<le> k then take (nat k) xs else take (length xs - nat (- k)) xs)"

section \<open>Trimming an oversize exception repr\<close>

text \<open>
  Lines 811 to 818 of \<^verbatim>\<open>handle_input_exception\<close>. The constant
  \<^verbatim>\<open>MAX_OBJECT_SIZE_BYTES\<close> is imported from \<^verbatim>\<open>modal._utils.blob_utils\<close> and is a
  parameter here. \<^verbatim>\<open>len\<close> of a Python string counts its characters.
\<close>

definition trimmed_bytes :: "int \<Rightarrow> string \<Rightarrow> int" where
  "trimmed_bytes max_object_size_bytes repr_exc =
     int (length repr_exc) - max_object_size_bytes - 1000"

definition kept_repr :: "int \<Rightarrow> string \<Rightarrow> string" where
  "kept_repr max_object_size_bytes repr_exc = slice_to repr_exc (max_object_size_bytes - 1000)"

definition trim_repr :: "int \<Rightarrow> string \<Rightarrow> string" where
  "trim_repr max_object_size_bytes repr_exc =
     (if max_object_size_bytes \<le> int (length repr_exc) then
        kept_repr max_object_size_bytes repr_exc @ ''...'' @ [CHR 0x0A] @ ''Trimmed '' @
          str_int (trimmed_bytes max_object_size_bytes repr_exc) @
          '' bytes from original exception''
      else repr_exc)"

section \<open>IOContext\<close>

text \<open>
  Values of user code, as far as the container looks into them: it tells a list from
  anything else and takes its length.
\<close>

datatype pyval = PNone | PInt int | PStr string | PList "pyval list" | PTuple "pyval list"

text \<open>
  A function input carries its pickled arguments, inline or as the id of a blob, and
  the method it is for; the finalized function is the callable's name and the names of
  its parameters, which \<^verbatim>\<open>inspect.signature\<close> lists in order. Bytes are strings here.
\<close>

datatype args_oneof = NoArgs | Args string | ArgsBlobId string

record FunctionInput =
  args_oneof :: args_oneof
  method_name :: string
  final_input :: bool

text \<open>The protobuf getter \<^verbatim>\<open>input.args\<close>: empty bytes unless the inline field is set.\<close>

definition input_args :: "FunctionInput \<Rightarrow> string" where
  "input_args inp = (case args_oneof inp of Args b \<Rightarrow> b | _ \<Rightarrow> [])"

record FinalizedFunction =
  callable_name :: string
  callable_params :: "string list"

text \<open>
  The cancel callback is code of the executor; the context only stores it and calls it.
  It is a value of a type \<open>'cb\<close>, and calling it is an effect that \<^verbatim>\<open>cancel\<close> returns
  beside the new state, with the two warnings it logs.
\<close>

record 'cb IOContext =
  input_ids :: "string list"
  retry_counts :: "int list"
  function_call_ids :: "string list"
  function_inputs :: "FunctionInput list"
  finalized_function :: FinalizedFunction
  is_batched :: bool
  cancel_issued :: bool
  cancel_callback :: "'cb option"

datatype 'cb cancel_effect =
    WarnReceivedCancellation "string list"
  | WarnCouldNotCancel
  | CallCallback 'cb

definition set_cancel_callback :: "'cb IOContext \<Rightarrow> 'cb \<Rightarrow> 'cb IOContext" where
  "set_cancel_callback c cb = c\<lparr>cancel_callback := Some cb\<rparr>"

definition cancel :: "'cb IOContext \<Rightarrow> 'cb IOContext \<times> 'cb cancel_effect list" where
  "cancel c =
     (if cancel_issued c then (c, [])
      else case cancel_callback c of
        Some cb \<Rightarrow>
          (c\<lparr>cancel_issued := True\<rparr>, [WarnReceivedCancellation (input_ids c), CallCallback cb])
      | None \<Rightarrow> (c, [WarnCouldNotCancel]))"

text \<open>Calling \<^verbatim>\<open>cancel()\<close> \<open>n\<close> times in a row, collecting the effects in order.\<close>

fun cancel_times :: "nat \<Rightarrow> 'cb IOContext \<Rightarrow> 'cb IOContext \<times> 'cb cancel_effect list" where
  "cancel_times 0 c = (c, [])"
| "cancel_times (Suc n) c =
     (let (c1, effs1) = cancel c; (c2, effs2) = cancel_times n c1 in (c2, effs1 @ effs2))"

fun callbacks_called :: "'cb cancel_effect list \<Rightarrow> 'cb list" where
  "callbacks_called [] = []"
| "callbacks_called (CallCallback cb # es) = cb # callbacks_called es"
| "callbacks_called (_ # es) = callbacks_called es"

text \<open>
  \<^verbatim>\<open>__init__\<close>: the two cancellation fields start at their class defaults.
\<close>

definition IOContext_new ::
    "string list \<Rightarrow> int list \<Rightarrow> string list \<Rightarrow> FinalizedFunction \<Rightarrow> FunctionInput list \<Rightarrow> bool
     \<Rightarrow> 'cb IOContext" where
  "IOContext_new ids rcs fc_ids fin_fun inputs batched =
     \<lparr>input_ids = ids, retry_counts = rcs, function_call_ids = fc_ids,
      function_inputs = inputs, finalized_function = fin_fun, is_batched = batched,
      cancel_issued = False, cancel_callback = None\<rparr>"

section \<open>The heartbeat tick\<close>

text \<open>
  \<^verbatim>\<open>current_inputs\<close> maps every input id of a context to the same context object, so a
  batch is one object under several keys. The table is therefore a map from input ids to
  addresses and a heap of contexts; \<^verbatim>\<open>create\<close>d contexts are registered under an
  address that the heap holds, and a lookup that finds none changes nothing.
\<close>

record 'cb InputTable =
  current_inputs :: "string \<rightharpoonup> nat"
  contexts :: "nat \<rightharpoonup> 'cb IOContext"

definition cancel_input :: "'cb InputTable \<Rightarrow> string \<Rightarrow> 'cb InputTable \<times> 'cb cancel_effect list" where
  "cancel_input t input_id =
     (case current_inputs t input_id of
        None \<Rightarrow> (t, [])
      | Some a \<Rightarrow>
          (case contexts t a of
             None \<Rightarrow> (t, [])
           | Some c \<Rightarrow>
               (let (c', effs) = cancel c
                in (t\<lparr>contexts := (contexts t)(a \<mapsto> c')\<rparr>, effs))))"

fun cancel_inputs :: "'cb InputTable \<Rightarrow> string list \<Rightarrow> 'cb InputTable \<times> 'cb cancel_effect list" where
  "cancel_inputs t [] = (t, [])"
| "cancel_inputs t (input_id # rest) =
     (let (t1, effs1) = cancel_input t input_id; (t2, effs2) = cancel_inputs t1 rest
      in (t2, effs1 @ effs2))"

text \<open>
  The part of \<^verbatim>\<open>_heartbeat_handle_cancellations\<close> after the RPC. The response either
  has no \<^verbatim>\<open>cancel_input_event\<close> or has one with its list of input ids; the function
  returns \<^verbatim>\<open>True\<close> exactly when the field is present.
\<close>

definition heartbeat_handle_response ::
    "'cb InputTable \<Rightarrow> string list option \<Rightarrow> 'cb InputTable \<times> 'cb cancel_effect list \<times> bool" where
  "heartbeat_handle_response t cancel_input_event =
     (case cancel_input_event of
        Some input_ids_to_cancel \<Rightarrow>
          (let (t', effs) = cancel_inputs t input_ids_to_cancel in (t', effs, True))
      | None \<Rightarrow> (t, [], False))"

text \<open>
  One round of \<^verbatim>\<open>_run_heartbeat_loop\<close>. The attempt either returns a response, or raises
  \<^verbatim>\<open>ClientClosed\<close>, or raises another \<^verbatim>\<open>Exception\<close>, or raises a \<^verbatim>\<open>BaseException\<close> that
  no handler of the loop catches (the task's cancellation). \<open>t0\<close> is the clock at the
  start of the round and \<open>t_end\<close> the clock read for \<^verbatim>\<open>heartbeat_duration\<close>; times are
  seconds, as reals. \<^verbatim>\<open>HEARTBEAT_INTERVAL\<close> is imported from \<^verbatim>\<open>modal.client\<close> and is a
  parameter. The round ends by sleeping and starting the next round, by leaving the
  loop, or by passing the exception on. What the loop logs, and \<^verbatim>\<open>t_last_success\<close>,
  which only the log reads, are left out.
\<close>

datatype heartbeat_attempt =
    Responded "string list option"
  | RaisedClientClosed
  | RaisedException
  | RaisedBaseException

datatype next_round = SleepThenNext real | LeaveLoop | PassOn

definition heartbeat_round ::
    "real \<Rightarrow> 'cb InputTable \<Rightarrow> heartbeat_attempt \<Rightarrow> real \<Rightarrow> real
     \<Rightarrow> 'cb InputTable \<times> 'cb cancel_effect list \<times> next_round" where
  "heartbeat_round heartbeat_interval t attempt t0 t_end =
     (case attempt of
        Responded cancel_input_event \<Rightarrow>
          (let (t', effs, got_cancellation) = heartbeat_handle_response t cancel_input_event
           in if got_cancellation then (t', effs, SleepThenNext 1.0)
              else (t', effs, SleepThenNext (max 0.0 (heartbeat_interval - (t_end - t0)))))
      | RaisedClientClosed \<Rightarrow> (t, [], LeaveLoop)
      | RaisedException \<Rightarrow> (t, [], SleepThenNext (max 0.0 (heartbeat_interval - (t_end - t0))))
      | RaisedBaseException \<Rightarrow> (t, [], PassOn))"

section \<open>Exceptions and the collaborators outside the manager\<close>

text \<open>
  The exception classes that the handlers tell apart, the ones the modelled code
  raises itself, and one constructor for every other exception, carrying what
  identifies it.
\<close>

datatype exc =
    KeyboardInterrupt
  | GeneratorExit
  | InputCancellation
  | CancelledError
  | InvalidError string
  | AssertionFailed
  | IndexError
  | KeyError string
  | OtherException string

text \<open>
  The codec, the blob store, the clock and Python's own rendering of exceptions are not
  part of the manager; they are the fields of an environment. The two codec functions
  may raise. \<^verbatim>\<open>serialize_exception\<close> and \<^verbatim>\<open>serialize_traceback\<close> catch what the codec
  raises and fall back, so they return bytes; the latter returns the pair after the
  \<^verbatim>\<open>or b""\<close> of its caller. Calls to the blob store and to the control plane are taken to
  return: an exception of theirs passes through the code modelled here unhandled.
\<close>

datatype data_format = DATA_FORMAT_PICKLE | DATA_FORMAT_OTHER nat

record env =
  max_object_size_bytes :: int
  deserialize :: "string \<Rightarrow> exc + (pyval list \<times> (string \<times> pyval) list)"
  serialize_data_format :: "pyval \<Rightarrow> data_format \<Rightarrow> exc + string"
  serialize_exception :: "exc \<Rightarrow> string"
  serialize_traceback :: "exc \<Rightarrow> string \<times> string"
  repr_exc :: "exc \<Rightarrow> string"
  format_exc :: "exc \<Rightarrow> string"
  blob_upload :: "string \<Rightarrow> string"
  blob_download :: "string \<Rightarrow> string"
  time_now :: real

section \<open>Creating a context\<close>

text \<open>
  \<^verbatim>\<open>IOContext.create\<close>: the two assertions, the unzipping of the fetched tuples, the
  download of blob arguments, and the lookup of the finalized function, which raises
  \<^verbatim>\<open>KeyError\<close> for an unknown method name.
\<close>

definition populate_input_blobs :: "env \<Rightarrow> FunctionInput \<Rightarrow> FunctionInput" where
  "populate_input_blobs e inp =
     (case args_oneof inp of
        ArgsBlobId blob_id \<Rightarrow> inp\<lparr>args_oneof := Args (blob_download e blob_id)\<rparr>
      | _ \<Rightarrow> inp)"

definition create ::
    "env \<Rightarrow> (string \<rightharpoonup> FinalizedFunction) \<Rightarrow> (string \<times> int \<times> string \<times> FunctionInput) list \<Rightarrow> bool
     \<Rightarrow> exc + 'cb IOContext" where
  "create e finalized_functions inputs batched =
     (if \<not> (if batched then 1 \<le> length inputs else length inputs = 1) then Inl AssertionFailed
      else
        (let ids = map fst inputs;
             rcs = map (\<lambda>i. fst (snd i)) inputs;
             fc_ids = map (\<lambda>i. fst (snd (snd i))) inputs;
             fis = map (\<lambda>i. populate_input_blobs e (snd (snd (snd i)))) inputs;
             m = method_name (hd fis)
         in if \<not> list_all (\<lambda>inp. m = method_name inp) fis then Inl AssertionFailed
            else case finalized_functions m of
              None \<Rightarrow> Inl (KeyError m)
            | Some fin_fun \<Rightarrow> Inr (IOContext_new ids rcs fc_ids fin_fun fis batched)))"

section \<open>Aggregating the arguments of a batch\<close>

definition deserialize_input ::
    "env \<Rightarrow> FunctionInput \<Rightarrow> exc + (pyval list \<times> (string \<times> pyval) list)" where
  "deserialize_input e inp =
     (if input_args inp \<noteq> [] then deserialize e (input_args inp) else Inr ([], []))"

fun deserialize_all ::
    "env \<Rightarrow> FunctionInput list \<Rightarrow> exc + (pyval list \<times> (string \<times> pyval) list) list" where
  "deserialize_all e [] = Inr []"
| "deserialize_all e (inp # inps) =
     (case deserialize_input e inp of
        Inl x \<Rightarrow> Inl x
      | Inr d \<Rightarrow>
          (case deserialize_all e inps of
             Inl x \<Rightarrow> Inl x
           | Inr ds \<Rightarrow> Inr (d # ds)))"

definition msg_arg_count :: "string \<Rightarrow> nat \<Rightarrow> nat \<Rightarrow> string" where
  "msg_arg_count func_name n_params num_params =
     ''Modal batched function '' @ func_name @ '' takes '' @ str_nat n_params @
     '' positional arguments, but one invocation in the batch has '' @ str_nat num_params @ ''.''"

definition msg_unexpected_keyword :: "string \<Rightarrow> string \<Rightarrow> string" where
  "msg_unexpected_keyword func_name k =
     ''Modal batched function '' @ func_name @ '' got unexpected keyword argument '' @ k @
     '' in one invocation in the batch.''"

definition msg_multiple_values :: "string \<Rightarrow> string \<Rightarrow> string" where
  "msg_multiple_values func_name k =
     ''Modal batched function '' @ func_name @ '' got multiple values for argument '' @ k @
     '' in one invocation in the batch.''"

text \<open>
  The two inner loops write into \<^verbatim>\<open>kwargs_by_inputs[i]\<close>. That list has one dictionary
  per input id, while \<open>i\<close> runs over the function inputs, so the dictionary is absent
  (\<open>None\<close>) when there are more function inputs than input ids, and the first access
  to it raises \<^verbatim>\<open>IndexError\<close>. A positional argument beyond the last parameter name
  raises \<^verbatim>\<open>IndexError\<close> as well.
\<close>

fun bind_args ::
    "string list \<Rightarrow> pyval list \<Rightarrow> (string \<rightharpoonup> pyval) option \<Rightarrow> exc + (string \<rightharpoonup> pyval) option" where
  "bind_args ps [] d = Inr d"
| "bind_args ps (a # rest) None = Inl IndexError"
| "bind_args [] (a # rest) (Some d) = Inl IndexError"
| "bind_args (p # ps) (a # rest) (Some d) = bind_args ps rest (Some (d(p \<mapsto> a)))"

fun bind_kwargs ::
    "string \<Rightarrow> string list \<Rightarrow> (string \<times> pyval) list \<Rightarrow> (string \<rightharpoonup> pyval) option
     \<Rightarrow> exc + (string \<rightharpoonup> pyval) option" where
  "bind_kwargs func_name param_names [] d = Inr d"
| "bind_kwargs func_name param_names ((k, v) # rest) d =
     (if k \<notin> set param_names then Inl (InvalidError (msg_unexpected_keyword func_name k))
      else case d of
        None \<Rightarrow> Inl IndexError
      | Some m \<Rightarrow>
          if m k \<noteq> None then Inl (InvalidError (msg_multiple_values func_name k))
          else bind_kwargs func_name param_names rest (Some (m(k \<mapsto> v))))"

text \<open>One round of the outer loop, for the invocation at position \<open>i\<close>.\<close>

definition aggregate_input ::
    "string \<Rightarrow> string list \<Rightarrow> (string \<rightharpoonup> pyval) list \<Rightarrow> nat \<Rightarrow> pyval list \<times> (string \<times> pyval) list
     \<Rightarrow> exc + (string \<rightharpoonup> pyval) list" where
  "aggregate_input func_name param_names kwargs_by_inputs i call =
     (let (pos, kws) = call; num_params = length pos + length kws
      in if num_params \<noteq> length param_names then
           Inl (InvalidError (msg_arg_count func_name (length param_names) num_params))
         else
           (case bind_args param_names pos
                   (if i < length kwargs_by_inputs then Some (kwargs_by_inputs ! i) else None) of
              Inl x \<Rightarrow> Inl x
            | Inr d1 \<Rightarrow>
                (case bind_kwargs func_name param_names kws d1 of
                   Inl x \<Rightarrow> Inl x
                 | Inr None \<Rightarrow> Inr kwargs_by_inputs
                 | Inr (Some d2) \<Rightarrow> Inr (kwargs_by_inputs[i := d2]))))"

fun aggregate_inputs ::
    "string \<Rightarrow> string list \<Rightarrow> (string \<rightharpoonup> pyval) list \<Rightarrow> nat
     \<Rightarrow> (pyval list \<times> (string \<times> pyval) list) list \<Rightarrow> exc + (string \<rightharpoonup> pyval) list" where
  "aggregate_inputs func_name param_names kwargs_by_inputs i [] = Inr kwargs_by_inputs"
| "aggregate_inputs func_name param_names kwargs_by_inputs i (call # calls) =
     (case aggregate_input func_name param_names kwargs_by_inputs i call of
        Inl x \<Rightarrow> Inl x
      | Inr kbi \<Rightarrow> aggregate_inputs func_name param_names kbi (Suc i) calls)"

text \<open>
  The dictionary comprehension at the end: for every parameter name the list of its
  values over the inputs; a dictionary without the name raises \<^verbatim>\<open>KeyError\<close>.
\<close>

fun column :: "string \<Rightarrow> (string \<rightharpoonup> pyval) list \<Rightarrow> exc + pyval list" where
  "column p [] = Inr []"
| "column p (d # ds) =
     (case d p of
        None \<Rightarrow> Inl (KeyError p)
      | Some v \<Rightarrow> (case column p ds of Inl x \<Rightarrow> Inl x | Inr vs \<Rightarrow> Inr (v # vs)))"

fun formatted_kwargs :: "string list \<Rightarrow> (string \<rightharpoonup> pyval) list \<Rightarrow> exc + (string \<times> pyval) list" where
  "formatted_kwargs [] kbi = Inr []"
| "formatted_kwargs (p # ps) kbi =
     (case column p kbi of
        Inl x \<Rightarrow> Inl x
      | Inr vs \<Rightarrow>
          (case formatted_kwargs ps kbi of
             Inl x \<Rightarrow> Inl x
           | Inr cols \<Rightarrow> Inr ((p, PList vs) # cols)))"

definition args_and_kwargs ::
    "env \<Rightarrow> 'cb IOContext \<Rightarrow> exc + (pyval list \<times> (string \<times> pyval) list)" where
  "args_and_kwargs e c =
     (case deserialize_all e (function_inputs c) of
        Inl x \<Rightarrow> Inl x
      | Inr deserialized_args \<Rightarrow>
          if \<not> is_batched c then
            (case deserialized_args of [] \<Rightarrow> Inl IndexError | d # _ \<Rightarrow> Inr d)
          else
            (let func_name = callable_name (finalized_function c);
                 param_names = callable_params (finalized_function c)
             in case aggregate_inputs func_name param_names
                       (replicate (length (input_ids c)) Map.empty) 0 deserialized_args of
                  Inl x \<Rightarrow> Inl x
                | Inr kbi \<Rightarrow>
                    (case formatted_kwargs param_names kbi of
                       Inl x \<Rightarrow> Inl x
                     | Inr cols \<Rightarrow> Inr ([], cols))))"

section \<open>Results and outputs\<close>

datatype generic_status =
    GENERIC_STATUS_UNSPECIFIED
  | GENERIC_STATUS_SUCCESS
  | GENERIC_STATUS_FAILURE
  | GENERIC_STATUS_TERMINATED

datatype data_oneof = NoData | Data string | DataBlobId string

text \<open>
  The fields of \<^verbatim>\<open>GenericResult\<close> that the manager sets; a field that a constructor call
  leaves out has the protobuf default, the empty string or the unset oneof.
\<close>

record GenericResult =
  status :: generic_status
  exception :: string
  traceback :: string
  serialized_tb :: string
  tb_line_cache :: string
  data_oneof :: data_oneof

record FunctionPutOutputsItem =
  input_id :: string
  input_started_at :: real
  output_created_at :: real
  result :: GenericResult
  item_data_format :: data_format
  retry_count :: int

definition format_blob_data :: "env \<Rightarrow> string \<Rightarrow> data_oneof" where
  "format_blob_data e bytes =
     (if max_object_size_bytes e < int (length bytes) then DataBlobId (blob_upload e bytes)
      else Data bytes)"

definition result_terminated :: GenericResult where
  "result_terminated =
     \<lparr>status = GENERIC_STATUS_TERMINATED, exception = [], traceback = [],
      serialized_tb = [], tb_line_cache = [], data_oneof = NoData\<rparr>"

definition result_success :: "data_oneof \<Rightarrow> GenericResult" where
  "result_success d =
     \<lparr>status = GENERIC_STATUS_SUCCESS, exception = [], traceback = [],
      serialized_tb = [], tb_line_cache = [], data_oneof = d\<rparr>"

text \<open>
  What the manager does to the outside, in order: a \<^verbatim>\<open>FunctionPutOutputs\<close> request with
  its items, the call of \<^verbatim>\<open>exit_context\<close>, and the printing of an exception.
\<close>

datatype output_effect =
    PutOutputs "FunctionPutOutputsItem list"
  | ExitContext real "string list"
  | PrintException exc
  | WarnCanceled "string list"

text \<open>
  \<^verbatim>\<open>_push_outputs\<close>: one item per triple of the \<^verbatim>\<open>zip\<close>, which stops at the shortest
  of the three lists, then one request per slice of 20 items.
\<close>

definition compose_outputs ::
    "env \<Rightarrow> 'cb IOContext \<Rightarrow> real \<Rightarrow> data_format \<Rightarrow> GenericResult list \<Rightarrow> FunctionPutOutputsItem list" where
  "compose_outputs e c started_at fmt results =
     map (\<lambda>(iid, rc, res).
            \<lparr>input_id = iid, input_started_at = started_at, output_created_at = time_now e,
             result = res, item_data_format = fmt, retry_count = rc\<rparr>)
         (zip (input_ids c) (zip (retry_counts c) results))"

definition output_batch_size :: nat where
  "output_batch_size = 20"

definition output_batches :: "'a list \<Rightarrow> 'a list list" where
  "output_batches outputs =
     map (\<lambda>k. take output_batch_size (drop (k * output_batch_size) outputs))
         [0 ..< (length outputs + output_batch_size - 1) div output_batch_size]"

definition push_outputs_rpc ::
    "env \<Rightarrow> 'cb IOContext \<Rightarrow> real \<Rightarrow> data_format \<Rightarrow> GenericResult list \<Rightarrow> output_effect list" where
  "push_outputs_rpc e c started_at fmt results =
     map PutOutputs (output_batches (compose_outputs e c started_at fmt results))"

text \<open>All items that a list of effects puts on the wire, in order.\<close>

fun items_put :: "output_effect list \<Rightarrow> FunctionPutOutputsItem list" where
  "items_put [] = []"
| "items_put (PutOutputs items # effs) = items @ items_put effs"
| "items_put (_ # effs) = items_put effs"

section \<open>Validating and pushing the outputs of a call\<close>

definition validate_output_data :: "'cb IOContext \<Rightarrow> pyval \<Rightarrow> exc + pyval list" where
  "validate_output_data c d =
     (if \<not> is_batched c then Inr [d]
      else case d of
        PList xs \<Rightarrow>
          if length xs \<noteq> length (input_ids c) then
            Inl (InvalidError (''Output of batched function '' @
              callable_name (finalized_function c) @
              '' must be a list of equal length as its inputs.''))
          else Inr xs
      | _ \<Rightarrow>
          Inl (InvalidError (''Output of batched function '' @
            callable_name (finalized_function c) @ '' must be a list.'')))"

fun serialize_all :: "env \<Rightarrow> data_format \<Rightarrow> pyval list \<Rightarrow> exc + string list" where
  "serialize_all e fmt [] = Inr []"
| "serialize_all e fmt (d # ds) =
     (case serialize_data_format e d fmt of
        Inl x \<Rightarrow> Inl x
      | Inr b \<Rightarrow> (case serialize_all e fmt ds of Inl x \<Rightarrow> Inl x | Inr bs \<Rightarrow> Inr (b # bs)))"

definition push_outputs ::
    "env \<Rightarrow> 'cb IOContext \<Rightarrow> real \<Rightarrow> pyval \<Rightarrow> data_format \<Rightarrow> exc + output_effect list" where
  "push_outputs e c started_at d fmt =
     (case validate_output_data c d of
        Inl x \<Rightarrow> Inl x
      | Inr ds \<Rightarrow>
          (case serialize_all e fmt ds of
             Inl x \<Rightarrow> Inl x
           | Inr bs \<Rightarrow>
               Inr (push_outputs_rpc e c started_at fmt
                      (map (\<lambda>b. result_success (format_blob_data e b)) bs)
                    @ [ExitContext started_at (input_ids c)])))"

section \<open>Handling an exception of an input\<close>

text \<open>
  \<^verbatim>\<open>handle_input_exception\<close>, given the exception that the guarded block raised. The
  first two classes are raised again; a cancellation is answered with one
  \<^verbatim>\<open>TERMINATED\<close> result per input id; everything else with one \<^verbatim>\<open>FAILURE\<close> result per
  input id, all built from the same exception. The note that
  \<^verbatim>\<open>check_fastapi_pydantic_compatibility\<close> may attach to an \<^verbatim>\<open>ImportError\<close> is part of
  what \<open>format_exc\<close> renders.
\<close>

datatype handled = Reraised exc | Handled "output_effect list"

definition result_failure :: "env \<Rightarrow> exc \<Rightarrow> GenericResult" where
  "result_failure e x =
     \<lparr>status = GENERIC_STATUS_FAILURE,
      exception = trim_repr (max_object_size_bytes e) (repr_exc e x),
      traceback = format_exc e x,
      serialized_tb = fst (serialize_traceback e x),
      tb_line_cache = snd (serialize_traceback e x),
      data_oneof = format_blob_data e (serialize_exception e x)\<rparr>"

definition handle_input_exception :: "env \<Rightarrow> 'cb IOContext \<Rightarrow> real \<Rightarrow> exc \<Rightarrow> handled" where
  "handle_input_exception e c started_at x =
     (if x = KeyboardInterrupt \<or> x = GeneratorExit then Reraised x
      else if x = InputCancellation \<or> x = CancelledError then
        Handled (push_outputs_rpc e c started_at DATA_FORMAT_PICKLE
                   (map (\<lambda>_. result_terminated) (input_ids c))
                 @ [ExitContext started_at (input_ids c), WarnCanceled (input_ids c)])
      else
        Handled (PrintException x #
                 push_outputs_rpc e c started_at DATA_FORMAT_PICKLE
                   (map (\<lambda>_. result_failure e x) (input_ids c))
                 @ [ExitContext started_at (input_ids c)]))"

section \<open>The generator output sink\<close>

text \<open>
  \<^verbatim>\<open>put_data_out\<close> builds one \<^verbatim>\<open>DataChunk\<close> per serialized message, numbered from
  \<open>start_index\<close> in the order of the list, and sends them in one
  \<^verbatim>\<open>FunctionCallPutDataOut\<close> request, to the input plane when the manager has its URL and
  to the control plane otherwise. The request is the function's result here.
\<close>

record DataChunk =
  chunk_data_format :: data_format
  index :: int
  chunk_data :: data_oneof

record FunctionCallPutDataRequest =
  function_call_id :: string
  data_chunks :: "DataChunk list"

definition put_data_out ::
    "env \<Rightarrow> string \<Rightarrow> int \<Rightarrow> data_format \<Rightarrow> string list \<Rightarrow> FunctionCallPutDataRequest" where
  "put_data_out e fc_id start_index fmt serialized_messages =
     \<lparr>function_call_id = fc_id,
      data_chunks =
        map (\<lambda>(i, message_bytes).
               \<lparr>chunk_data_format = fmt, index = start_index + int i,
                chunk_data =
                  (if max_object_size_bytes e < int (length message_bytes)
                   then DataBlobId (blob_upload e message_bytes)
                   else Data message_bytes)\<rparr>)
            (List.enumerate 0 serialized_messages)\<rparr>"

text \<open>
  The task reads a queue that the generator fills while it runs, so what a read finds
  depends on timing. A run of the task is driven by the list of what its reads find, in
  order: a message, the stop sentinel, or an empty queue. \<^verbatim>\<open>get_nowait\<close> on an empty
  queue raises \<^verbatim>\<open>QueueEmpty\<close>; the blocking \<^verbatim>\<open>get\<close> waits instead and returns what comes
  next. When the list is used up nothing more ever arrives: \<^verbatim>\<open>get_nowait\<close> finds the
  queue empty and \<^verbatim>\<open>get\<close> never returns.
\<close>

datatype queue_event = Got pyval | GotSentinel | QueueEmpty

text \<open>
  The inner loop: with the messages serialized so far and their estimated size, it
  returns the list to send, whether the sentinel was seen, and the reads still to come;
  or the exception that serializing a message raised.
\<close>

datatype drained = Drained "string list" bool "queue_event list" | DrainRaised exc

fun drain :: "env \<Rightarrow> data_format \<Rightarrow> string list \<Rightarrow> nat \<Rightarrow> queue_event list \<Rightarrow> drained" where
  "drain e fmt serialized_messages total_size [] =
     Drained serialized_messages False []"
| "drain e fmt serialized_messages total_size (ev # evs) =
     (if total_size < 16 * 1024 * 1024 then
        (case ev of
           QueueEmpty \<Rightarrow> Drained serialized_messages False evs
         | GotSentinel \<Rightarrow> Drained serialized_messages True evs
         | Got message \<Rightarrow>
             (case serialize_data_format e message fmt of
                Inl x \<Rightarrow> DrainRaised x
              | Inr b \<Rightarrow>
                  drain e fmt (serialized_messages @ [b]) (total_size + (length b + 512)) evs))
      else Drained serialized_messages False (ev # evs))"

lemma drain_reads_forward:
  "drain e fmt msgs sz evs = Drained msgs' seen rest \<Longrightarrow> length rest \<le> length evs"
proof (induction evs arbitrary: msgs sz)
  case Nil
  then show ?case by simp
next
  case (Cons ev evs)
  then show ?case
    by (cases ev) (fastforce split: if_splits sum.splits)+
qed

text \<open>
  \<^verbatim>\<open>generator_output_task\<close>: the requests it sends, in order, and how it ends: after the
  sentinel, waiting forever in \<^verbatim>\<open>get\<close>, or with an exception of the codec. The sleep of
  one millisecond before the first chunk only shifts what the later reads find.
\<close>

datatype sink_end = SinkDone | SinkWaiting | SinkRaised exc

function generator_output_loop ::
    "env \<Rightarrow> string \<Rightarrow> data_format \<Rightarrow> int \<Rightarrow> queue_event list
     \<Rightarrow> FunctionCallPutDataRequest list \<times> sink_end" where
  "generator_output_loop e fc_id fmt idx [] = ([], SinkWaiting)"
| "generator_output_loop e fc_id fmt idx (QueueEmpty # evs) =
     generator_output_loop e fc_id fmt idx evs"
| "generator_output_loop e fc_id fmt idx (GotSentinel # evs) = ([], SinkDone)"
| "generator_output_loop e fc_id fmt idx (Got message # evs) =
     (case serialize_data_format e message fmt of
        Inl x \<Rightarrow> ([], SinkRaised x)
      | Inr b \<Rightarrow>
          (case drain e fmt [b] (length b + 512) evs of
             DrainRaised x \<Rightarrow> ([], SinkRaised x)
           | Drained serialized_messages received_sentinel rest \<Rightarrow>
               (let request = put_data_out e fc_id idx fmt serialized_messages
                in if received_sentinel then ([request], SinkDone)
                   else
                     (case generator_output_loop e fc_id fmt
                             (idx + int (length serialized_messages)) rest of
                        (requests, ending) \<Rightarrow> (request # requests, ending)))))"
  by pat_completeness auto
termination
proof (relation "measure (\<lambda>(e, fc_id, fmt, idx, evs). length evs)")
  show "wf (measure (\<lambda>(e, fc_id, fmt, idx, evs). length evs))"
    by simp
next
  fix e :: env and fc_id :: string and fmt :: data_format and idx :: int
    and evs :: "queue_event list"
  show "((e, fc_id, fmt, idx, evs), (e, fc_id, fmt, idx, QueueEmpty # evs))
      \<in> measure (\<lambda>(e, fc_id, fmt, idx, evs). length evs)"
    by simp
next
  fix e :: env and fc_id :: string and fmt :: data_format and idx :: int
    and message :: pyval and evs rest :: "queue_event list" and b :: string
    and serialized_messages :: "string list" and received_sentinel :: bool
    and request :: FunctionCallPutDataRequest
  assume "drain e fmt [b] (length b + 512) evs =
      Drained serialized_messages received_sentinel rest"
  from drain_reads_forward [OF this]
  show "((e, fc_id, fmt, idx + int (length serialized_messages), rest),
         (e, fc_id, fmt, idx, Got message # evs))
      \<in> measure (\<lambda>(e, fc_id, fmt, idx, evs). length evs)"
    by simp
qed

definition generator_output_task ::
    "env \<Rightarrow> string \<Rightarrow> data_format \<Rightarrow> queue_event list
     \<Rightarrow> FunctionCallPutDataRequest list \<times> sink_end" where
  "generator_output_task e fc_id fmt evs = generator_output_loop e fc_id fmt 1 evs"

section \<open>Heartbeats and the memory snapshot\<close>

text \<open>
  The heartbeat loop and \<^verbatim>\<open>memory_snapshot\<close> are two tasks of one event loop: a task
  runs alone until it awaits something that is not ready, so a step of the system is
  the code of one task between two such points. They share the flag
  \<^verbatim>\<open>_waiting_for_memory_snapshot\<close> and the lock of \<^verbatim>\<open>heartbeat_condition\<close>, an
  \<^verbatim>\<open>asyncio.Condition\<close>: entering \<^verbatim>\<open>async with\<close> acquires the lock, at once when it is
  free; \<^verbatim>\<open>wait()\<close> releases it, suspends until a \<^verbatim>\<open>notify_all()\<close> and acquires it again
  before it returns or passes a cancellation on; leaving the block releases it.

  Where the heartbeat task is: outside \<^verbatim>\<open>_heartbeat_handle_cancellations\<close> (before a
  round, or asleep after one); waiting for the lock at the entry of the block; inside
  \<^verbatim>\<open>wait()\<close>, not yet notified; notified and waiting for the lock; awaiting the answer to
  its \<^verbatim>\<open>ContainerHeartbeat\<close> request, with the lock held; cancelled inside \<^verbatim>\<open>wait()\<close> and
  waiting for the lock to unwind; ended.
\<close>

datatype task = HeartbeatTask | SnapshotTask

datatype heartbeat_at =
    HB_Outside
  | HB_Acquiring
  | HB_CondWait
  | HB_Notified
  | HB_Request
  | HB_Unwinding
  | HB_Ended

text \<open>
  Where \<^verbatim>\<open>memory_snapshot\<close> is: not running; waiting for the lock; awaiting
  \<^verbatim>\<open>ContainerCheckpoint\<close>; awaiting the close of the client; inside \<^verbatim>\<open>memory_restore\<close>.
\<close>

datatype snapshot_at =
    SN_NotRunning
  | SN_Acquiring
  | SN_Checkpoint
  | SN_Closing
  | SN_Restoring

record snapshot_system =
  waiting_for_memory_snapshot :: bool
  lock_owner :: "task option"
  heartbeat_at :: heartbeat_at
  snapshot_at :: snapshot_at

text \<open>
  \<^verbatim>\<open>heartbeats(wait_for_mem_snap)\<close> creates the heartbeat task and sets the flag before
  the task first runs.
\<close>

definition heartbeats :: "bool \<Rightarrow> snapshot_system" where
  "heartbeats wait_for_mem_snap =
     \<lparr>waiting_for_memory_snapshot = wait_for_mem_snap, lock_owner = None,
      heartbeat_at = HB_Outside, snapshot_at = SN_NotRunning\<rparr>"

text \<open>
  The heartbeat task with the lock just acquired: the \<^verbatim>\<open>while\<close> test of the flag, and
  either \<^verbatim>\<open>wait()\<close>, which gives the lock back, or the request, awaited with the lock
  held.
\<close>

definition heartbeat_locked :: "snapshot_system \<Rightarrow> snapshot_system" where
  "heartbeat_locked s =
     (if waiting_for_memory_snapshot s then s\<lparr>heartbeat_at := HB_CondWait, lock_owner := None\<rparr>
      else s\<lparr>heartbeat_at := HB_Request, lock_owner := Some HeartbeatTask\<rparr>)"

text \<open>
  The steps of the heartbeat task. Leaving the block after the request, with a response
  or with an exception, releases the lock; the loop then sleeps, or ends on
  \<^verbatim>\<open>ClientClosed\<close>. The task can be cancelled wherever it is suspended.
\<close>

definition heartbeat_steps :: "snapshot_system \<Rightarrow> snapshot_system list" where
  "heartbeat_steps s =
     (case heartbeat_at s of
        HB_Outside \<Rightarrow>
          [if lock_owner s = None then heartbeat_locked s else s\<lparr>heartbeat_at := HB_Acquiring\<rparr>,
           s\<lparr>heartbeat_at := HB_Ended\<rparr>]
      | HB_Acquiring \<Rightarrow>
          (if lock_owner s = None then [heartbeat_locked s] else []) @
          [s\<lparr>heartbeat_at := HB_Ended\<rparr>]
      | HB_CondWait \<Rightarrow> [s\<lparr>heartbeat_at := HB_Unwinding\<rparr>]
      | HB_Notified \<Rightarrow>
          (if lock_owner s = None then [heartbeat_locked s] else []) @
          [s\<lparr>heartbeat_at := HB_Unwinding\<rparr>]
      | HB_Request \<Rightarrow>
          [s\<lparr>heartbeat_at := HB_Outside, lock_owner := None\<rparr>,
           s\<lparr>heartbeat_at := HB_Ended, lock_owner := None\<rparr>]
      | HB_Unwinding \<Rightarrow>
          (if lock_owner s = None then [s\<lparr>heartbeat_at := HB_Ended\<rparr>] else [])
      | HB_Ended \<Rightarrow> [])"

text \<open>\<^verbatim>\<open>notify_all()\<close> wakes the heartbeat task if it is inside \<^verbatim>\<open>wait()\<close>.\<close>

definition notify_all :: "snapshot_system \<Rightarrow> snapshot_system" where
  "notify_all s = (if heartbeat_at s = HB_CondWait then s\<lparr>heartbeat_at := HB_Notified\<rparr> else s)"

text \<open>
  \<^verbatim>\<open>memory_snapshot\<close> with the lock just acquired: it sets the flag, notifies, and awaits
  \<^verbatim>\<open>ContainerCheckpoint\<close>; if the GPU checkpoint before that raises, it leaves the block
  with nothing changed. After the restore it clears the flag, notifies and leaves the
  block. An exception of one of the awaited calls leaves the block as well, with the
  flag still set.
\<close>

definition snapshot_locked :: "snapshot_system \<Rightarrow> snapshot_system list" where
  "snapshot_locked s =
     [(notify_all (s\<lparr>waiting_for_memory_snapshot := True\<rparr>))
        \<lparr>snapshot_at := SN_Checkpoint, lock_owner := Some SnapshotTask\<rparr>,
      s\<lparr>snapshot_at := SN_NotRunning, lock_owner := None\<rparr>]"

definition snapshot_raised :: "snapshot_system \<Rightarrow> snapshot_system" where
  "snapshot_raised s = s\<lparr>snapshot_at := SN_NotRunning, lock_owner := None\<rparr>"

definition snapshot_restored :: "snapshot_system \<Rightarrow> snapshot_system" where
  "snapshot_restored s =
     (notify_all (s\<lparr>waiting_for_memory_snapshot := False\<rparr>))
       \<lparr>snapshot_at := SN_NotRunning, lock_owner := None\<rparr>"

definition snapshot_steps :: "snapshot_system \<Rightarrow> snapshot_system list" where
  "snapshot_steps s =
     (case snapshot_at s of
        SN_NotRunning \<Rightarrow>
          (if lock_owner s = None then snapshot_locked s else [s\<lparr>snapshot_at := SN_Acquiring\<rparr>])
      | SN_Acquiring \<Rightarrow> (if lock_owner s = None then snapshot_locked s else [])
      | SN_Checkpoint \<Rightarrow> [s\<lparr>snapshot_at := SN_Closing\<rparr>, snapshot_raised s]
      | SN_Closing \<Rightarrow> [s\<lparr>snapshot_at := SN_Restoring\<rparr>, snapshot_raised s]
      | SN_Restoring \<Rightarrow> [snapshot_restored s, snapshot_raised s])"

definition successors :: "snapshot_system \<Rightarrow> snapshot_system list" where
  "successors s = heartbeat_steps s @ snapshot_steps s"

inductive reachable :: "snapshot_system \<Rightarrow> bool" where
  start: "reachable (heartbeats wait_for_mem_snap)"
| step: "reachable s \<Longrightarrow> s' \<in> set (successors s) \<Longrightarrow> reachable s'"

section \<open>A concrete batch\<close>

text \<open>
  The batch of \<^verbatim>\<open>test_batch_sync_function_arg_len_error\<close>: the two-parameter function
  \<^verbatim>\<open>batch_function_sync(x, y)\<close> and two inputs, called with \<^verbatim>\<open>(10, 5)\<close> and with
  \<^verbatim>\<open>(10, 5, 1)\<close>. The environment decodes the payloads \<^verbatim>\<open>a\<close> and \<^verbatim>\<open>b\<close> to these
  calls, encodes integers as their decimal text, and renders an \<^verbatim>\<open>InvalidError\<close> the
  way \<^verbatim>\<open>repr\<close> does.
\<close>

definition fixture_env :: env where
  "fixture_env =
     \<lparr>max_object_size_bytes = 2097152,
      deserialize = (\<lambda>b. if b = ''a'' then Inr ([PInt 10, PInt 5], [])
                         else if b = ''b'' then Inr ([PInt 10, PInt 5, PInt 1], [])
                         else Inl (OtherException ''UnpicklingError'')),
      serialize_data_format = (\<lambda>v fmt. case v of PInt i \<Rightarrow> Inr (str_int i)
                                        | _ \<Rightarrow> Inl (OtherException ''PicklingError'')),
      serialize_exception = (\<lambda>x. ''pickled-exception''),
      serialize_traceback = (\<lambda>x. ([], [])),
      repr_exc = (\<lambda>x. case x of InvalidError m \<Rightarrow> ''InvalidError('' @ [CHR 0x27] @ m @ [CHR 0x27] @ '')''
                           | _ \<Rightarrow> ''Exception()''),
      format_exc = (\<lambda>x. ''Traceback (most recent call last):''),
      blob_upload = (\<lambda>b. ''bl-1''),
      blob_download = (\<lambda>b. []),
      time_now = 2\<rparr>"

definition fixture_functions :: "string \<rightharpoonup> FinalizedFunction" where
  "fixture_functions =
     [[] \<mapsto> \<lparr>callable_name = ''batch_function_sync'', callable_params = [''x'', ''y'']\<rparr>]"

definition fixture_inputs :: "(string \<times> int \<times> string \<times> FunctionInput) list" where
  "fixture_inputs =
     [(''in-1'', 0, ''fc-1'', \<lparr>args_oneof = Args ''a'', method_name = [], final_input = False\<rparr>),
      (''in-2'', 1, ''fc-1'', \<lparr>args_oneof = Args ''b'', method_name = [], final_input = False\<rparr>)]"

definition fixture_context :: "nat IOContext" where
  "fixture_context =
     IOContext_new [''in-1'', ''in-2''] [0, 1] [''fc-1'', ''fc-1'']
       \<lparr>callable_name = ''batch_function_sync'', callable_params = [''x'', ''y'']\<rparr>
       [\<lparr>args_oneof = Args ''a'', method_name = [], final_input = False\<rparr>,
        \<lparr>args_oneof = Args ''b'', method_name = [], final_input = False\<rparr>]
       True"

section \<open>Properties of InputSlots\<close>

text \<open>
  A waiter is parked only while the semaphore is full: every operation that lowers
  \<open>active\<close> or raises \<open>slot_value\<close> ends with \<^verbatim>\<open>_wake_waiter\<close>, except
  \<^verbatim>\<open>set_value\<close> on a closed semaphore, which changes neither.
\<close>

lemma slots_waiter_full:
  "slots_reachable s \<Longrightarrow> waiter s \<noteq> None \<Longrightarrow> slot_value s \<le> active s"
proof (induction rule: slots_reachable.induct)
  case (reach_init v)
  then show ?case by (simp add: InputSlots_init_def)
next
  case (reach_acquired s s')
  then show ?case by (auto simp: acquire_def split: if_splits)
next
  case (reach_parked s s')
  then show ?case by (auto simp: acquire_def split: if_splits)
next
  case (reach_release s)
  then show ?case by (auto simp: release_def wake_waiter_def split: if_splits)
next
  case (reach_set_value s v)
  then show ?case by (auto simp: set_value_def wake_waiter_def split: if_splits)
next
  case (reach_closed s)
  then show ?case by simp
next
  case (reach_cancelled s)
  then show ?case by simp
qed

text \<open>
  C3, as the code has it. \<^verbatim>\<open>set_value\<close> returns at once on a closed semaphore, so the
  claim holds for the semaphores that are not closed: the capacity becomes \<open>n\<close>, smaller
  or larger than before; when \<open>active\<close> is below the new capacity and a waiter is parked,
  the waiter's future is resolved (unless it was cancelled), the reference to it is
  dropped and \<open>active\<close> is incremented on its behalf; otherwise nothing else changes. On
  a closed semaphore the call changes nothing.
\<close>

theorem set_value_unless_closed:
  "(\<not> closed_flag s \<longrightarrow>
      slot_value (fst (set_value s n)) = n \<and>
      closed_flag (fst (set_value s n)) = closed_flag s \<and>
      (active s < n \<and> waiter s = Some Pending \<longrightarrow>
         waiter (fst (set_value s n)) = None \<and>
         active (fst (set_value s n)) = active s + 1 \<and>
         snd (set_value s n) = [SetResult]) \<and>
      (active s < n \<and> waiter s = Some Cancelled \<longrightarrow>
         waiter (fst (set_value s n)) = None \<and>
         active (fst (set_value s n)) = active s + 1 \<and>
         snd (set_value s n) = []) \<and>
      (n \<le> active s \<or> waiter s = None \<longrightarrow>
         waiter (fst (set_value s n)) = waiter s \<and>
         active (fst (set_value s n)) = active s \<and>
         snd (set_value s n) = [])) \<and>
   (closed_flag s \<longrightarrow> set_value s n = (s, []))"
  by (auto simp: set_value_def wake_waiter_def)

theorem set_value_unless_closed_witness:
  "\<not> closed_flag \<lparr>active = 2, slot_value = 2, waiter = Some Pending, closed_flag = False\<rparr> \<and>
   active \<lparr>active = 2, slot_value = 2, waiter = Some Pending, closed_flag = False\<rparr> < 3 \<and>
   waiter \<lparr>active = 2, slot_value = 2, waiter = Some Pending, closed_flag = False\<rparr> = Some Pending \<and>
   set_value \<lparr>active = 2, slot_value = 2, waiter = Some Pending, closed_flag = False\<rparr> 3 =
     (\<lparr>active = 3, slot_value = 3, waiter = None, closed_flag = False\<rparr>, [SetResult]) \<and>
   (1::int) \<le> active \<lparr>active = 8, slot_value = 10, waiter = None, closed_flag = False\<rparr> \<and>
   slot_value (fst (set_value \<lparr>active = 8, slot_value = 10, waiter = None,
     closed_flag = False\<rparr> 1)) = 1 \<and>
   active (fst (set_value \<lparr>active = 8, slot_value = 10, waiter = None,
     closed_flag = False\<rparr> 1)) = 8"
  using set_value_unless_closed
      [of "\<lparr>active = 2, slot_value = 2, waiter = Some Pending, closed_flag = False\<rparr>" 3]
    set_value_unless_closed
      [of "\<lparr>active = 8, slot_value = 10, waiter = None, closed_flag = False\<rparr>" 1]
  by (simp add: set_value_def wake_waiter_def)

text \<open>
  The claim as stated fails after \<^verbatim>\<open>close()\<close>: closing a fresh semaphore of capacity 5
  takes its five slots and returns, and \<^verbatim>\<open>set_value(1)\<close> then leaves the capacity at 5.
\<close>

theorem set_value_after_close_counterexample:
  "close (InputSlots_init 5) =
     CloseReturned \<lparr>active = 5, slot_value = 5, waiter = None, closed_flag = True\<rparr> \<and>
   slot_value (fst (set_value \<lparr>active = 5, slot_value = 5, waiter = None,
     closed_flag = True\<rparr> 1)) = 5 \<and>
   slot_value (fst (set_value \<lparr>active = 5, slot_value = 5, waiter = None,
     closed_flag = True\<rparr> 1)) \<noteq> 1"
  by (simp add: close_def InputSlots_init_def acquire_def set_value_def eval_nat_numeral)

text \<open>
  C9. In a state the semaphore can reach, if \<open>active < slot_value\<close> then
  \<^verbatim>\<open>acquire()\<close> returns without parking and the \<^verbatim>\<open>release()\<close> that follows restores
  both \<open>active\<close> and \<open>slot_value\<close>. Neither operation reads \<open>closed_flag\<close>, so the
  statement needs no hypothesis on it. Reachability matters: it excludes a waiter parked
  on a semaphore with a free slot, which \<^verbatim>\<open>release\<close> would wake.
\<close>

theorem acquire_release_roundtrip:
  "slots_reachable s \<Longrightarrow> active s < slot_value s \<Longrightarrow>
   acquire s = Acquired (s\<lparr>active := active s + 1\<rparr>) \<and>
   active (fst (release (s\<lparr>active := active s + 1\<rparr>))) = active s \<and>
   slot_value (fst (release (s\<lparr>active := active s + 1\<rparr>))) = slot_value s \<and>
   snd (release (s\<lparr>active := active s + 1\<rparr>)) = []"
proof -
  assume r: "slots_reachable s" and free: "active s < slot_value s"
  have "waiter s = None"
    using slots_waiter_full [OF r] free by fastforce
  with free show ?thesis
    by (simp add: acquire_def release_def wake_waiter_def)
qed

theorem acquire_release_roundtrip_witness:
  "slots_reachable (InputSlots_init 1) \<and>
   active (InputSlots_init 1) < slot_value (InputSlots_init 1) \<and>
   acquire (InputSlots_init 1) =
     Acquired \<lparr>active = 1, slot_value = 1, waiter = None, closed_flag = False\<rparr> \<and>
   release \<lparr>active = 1, slot_value = 1, waiter = None, closed_flag = False\<rparr> =
     (InputSlots_init 1, [])"
proof -
  have r: "slots_reachable (InputSlots_init 1)" by (rule reach_init)
  have f: "active (InputSlots_init 1) < slot_value (InputSlots_init 1)"
    by (simp add: InputSlots_init_def)
  show ?thesis
    using r f acquire_release_roundtrip [OF r f]
    by (simp add: InputSlots_init_def release_def wake_waiter_def)
qed

section \<open>Properties of the manual concurrency override\<close>

text \<open>
  C10, as the code has it. \<^verbatim>\<open>set_input_concurrency(n)\<close> on the singleton sets the stop
  flag and hands \<open>min n max_concurrency\<close> to \<^verbatim>\<open>set_value\<close>. Unless the semaphore is
  closed its capacity is then \<open>min n max_concurrency\<close>; on a closed semaphore the
  semaphore is left as it was. In both cases the flag is set, the loop's \<^verbatim>\<open>while\<close> test
  fails, and a response of the control plane that arrives afterwards changes nothing.
\<close>

theorem set_input_concurrency_clamps:
  "set_input_concurrency (Some m) n = Inr (m', evs) \<Longrightarrow>
   stop_concurrency_loop m' \<and> \<not> loop_continues m' \<and>
   (\<forall>r. loop_response m' r = (m', [])) \<and>
   max_concurrency m' = max_concurrency m \<and>
   (\<not> closed_flag (input_slots m) \<longrightarrow>
      slot_value (input_slots m') = min n (max_concurrency m) \<and>
      slot_value (input_slots m') \<le> max_concurrency m) \<and>
   (closed_flag (input_slots m) \<longrightarrow> input_slots m' = input_slots m \<and> evs = [])"
  by (auto simp: set_input_concurrency_def loop_continues_def loop_response_def
        set_value_def wake_waiter_def Let_def
      split: prod.splits if_splits)

theorem set_input_concurrency_clamps_witness:
  "set_input_concurrency (Some (concurrency_init False 10 5)) 20 =
     Inr (\<lparr>max_concurrency = 10, target_concurrency = 5, stop_concurrency_loop = True,
            input_slots = \<lparr>active = 0, slot_value = 10, waiter = None, closed_flag = False\<rparr>\<rparr>, []) \<and>
   \<not> closed_flag (input_slots (concurrency_init False 10 5)) \<and>
   min 20 (max_concurrency (concurrency_init False 10 5)) = 10 \<and>
   loop_response \<lparr>max_concurrency = 10, target_concurrency = 5, stop_concurrency_loop = True,
            input_slots = \<lparr>active = 0, slot_value = 10, waiter = None, closed_flag = False\<rparr>\<rparr> 7 =
     (\<lparr>max_concurrency = 10, target_concurrency = 5, stop_concurrency_loop = True,
            input_slots = \<lparr>active = 0, slot_value = 10, waiter = None, closed_flag = False\<rparr>\<rparr>, [])"
proof -
  have e: "set_input_concurrency (Some (concurrency_init False 10 5)) 20 =
     Inr (\<lparr>max_concurrency = 10, target_concurrency = 5, stop_concurrency_loop = True,
            input_slots = \<lparr>active = 0, slot_value = 10, waiter = None, closed_flag = False\<rparr>\<rparr>, [])"
    by (simp add: set_input_concurrency_def concurrency_init_def InputSlots_init_def
          set_value_def wake_waiter_def Let_def)
  show ?thesis
    using e set_input_concurrency_clamps [OF e]
    by (simp add: concurrency_init_def InputSlots_init_def Let_def)
qed

text \<open>
  The claim as stated fails once the semaphore is closed. A manager set up with
  \<^verbatim>\<open>max_concurrent_inputs = 10\<close> and \<^verbatim>\<open>target_concurrent_inputs = 5\<close> has a semaphore
  of capacity 5; after \<^verbatim>\<open>close()\<close> has drained it, \<^verbatim>\<open>set_input_concurrency(3)\<close> leaves
  the capacity at 5, which is not \<open>min 3 10\<close>.
\<close>

theorem set_input_concurrency_closed_counterexample:
  "input_slots (concurrency_init False 10 5) = InputSlots_init 5 \<and>
   max_concurrency (concurrency_init False 10 5) = 10 \<and>
   close (InputSlots_init 5) =
     CloseReturned \<lparr>active = 5, slot_value = 5, waiter = None, closed_flag = True\<rparr> \<and>
   set_input_concurrency
     (Some ((concurrency_init False 10 5)
        \<lparr>input_slots := \<lparr>active = 5, slot_value = 5, waiter = None, closed_flag = True\<rparr>\<rparr>)) 3 =
     Inr (\<lparr>max_concurrency = 10, target_concurrency = 5, stop_concurrency_loop = True,
            input_slots = \<lparr>active = 5, slot_value = 5, waiter = None, closed_flag = True\<rparr>\<rparr>, []) \<and>
   (5::int) \<noteq> min 3 10"
  by (simp add: set_input_concurrency_def concurrency_init_def InputSlots_init_def
        close_def acquire_def set_value_def Let_def eval_nat_numeral)

section \<open>Properties of the trimmed repr\<close>

lemma kept_repr_length:
  "1000 \<le> m \<Longrightarrow> m \<le> int (length r) \<Longrightarrow> int (length (kept_repr m r)) = m - 1000"
  by (simp add: kept_repr_def slice_to_def)

text \<open>
  For a repr of at least \<open>m\<close> characters the note reports \<open>length - m - 1000\<close>, which is
  2000 less than the number of characters the slice dropped.
\<close>

lemma trim_repr_note_count:
  "1000 \<le> m \<Longrightarrow> m \<le> int (length r) \<Longrightarrow>
   trim_repr m r =
     take (nat (m - 1000)) r @ ''...'' @ [CHR 0x0A] @ ''Trimmed '' @
       str_int (trimmed_bytes m r) @ '' bytes from original exception'' \<and>
   int (length r) - int (length (kept_repr m r)) = trimmed_bytes m r + 2000"
  using kept_repr_length [of m r]
  by (simp add: trim_repr_def trimmed_bytes_def) (simp add: kept_repr_def slice_to_def)

text \<open>
  C2 on the code: with \<^verbatim>\<open>MAX_OBJECT_SIZE_BYTES\<close> at 2 MiB, a repr of exactly 2097152
  characters is cut to its first 2096152 characters, so 1000 characters are dropped,
  and the note that follows says \<^verbatim>\<open>Trimmed -1000 bytes\<close>.
\<close>

theorem trim_repr_note_at_limit:
  "trim_repr 2097152 (replicate 2097152 CHR ''x'') =
     replicate 2096152 CHR ''x'' @ ''...'' @ [CHR 0x0A] @
       ''Trimmed -1000 bytes from original exception'' \<and>
   int (length (replicate 2097152 CHR ''x'')) -
     int (length (kept_repr 2097152 (replicate 2097152 CHR ''x''))) = 1000 \<and>
   trimmed_bytes 2097152 (replicate 2097152 CHR ''x'') = - 1000"
proof -
  have n: "str_int (- 1000) = ''-1000''"
    by code_simp
  show ?thesis
    by (simp add: trim_repr_def kept_repr_def slice_to_def trimmed_bytes_def n)
qed

section \<open>Properties of IOContext.cancel\<close>

lemma cancel_times_issued: "cancel_issued c \<Longrightarrow> cancel_times n c = (c, [])"
  by (induction n) (simp_all add: cancel_def)

lemma cancel_sets_issued:
  "cancel_callback c = Some cb \<Longrightarrow> cancel_issued (fst (cancel c))"
  by (simp add: cancel_def)

lemma cancel_times_once:
  "cancel_callback c = Some cb \<Longrightarrow> 0 < n \<Longrightarrow> cancel_times n c = cancel c"
proof (cases n)
  case 0
  assume "0 < n"
  with 0 show ?thesis by simp
next
  case (Suc k)
  assume cb: "cancel_callback c = Some cb"
  obtain c1 effs1 where c1: "cancel c = (c1, effs1)"
    by (cases "cancel c")
  have "cancel_issued c1"
    using cancel_sets_issued [OF cb] c1 by simp
  then have "cancel_times k c1 = (c1, [])"
    by (rule cancel_times_issued)
  with Suc c1 show ?thesis by simp
qed

text \<open>
  C8. For a context with a registered callback, a second \<^verbatim>\<open>cancel()\<close> changes nothing
  and has no effect of its own, and any positive number of calls in a row leaves the
  state and the effects of a single call. Among those effects the callback is called
  exactly once when no cancellation had been issued before, as in every context
  since its creation, and not at all when one had (it was called then).
\<close>

theorem cancel_idempotent:
  "cancel_callback c = Some cb \<Longrightarrow>
   cancel (fst (cancel c)) = (fst (cancel c), []) \<and>
   (\<forall>n. 0 < n \<longrightarrow>
      cancel_times n c = cancel c \<and>
      callbacks_called (snd (cancel_times n c)) = (if cancel_issued c then [] else [cb]))"
proof -
  assume cb: "cancel_callback c = Some cb"
  have twice: "cancel (fst (cancel c)) = (fst (cancel c), [])"
    using cancel_sets_issued [OF cb] by (simp add: cancel_def)
  have calls: "callbacks_called (snd (cancel c)) = (if cancel_issued c then [] else [cb])"
    using cb by (simp add: cancel_def)
  show ?thesis
    using twice calls cancel_times_once [OF cb] by simp
qed

theorem cancel_idempotent_witness:
  "cancel_callback (set_cancel_callback
      (IOContext_new [''in-1''] [0] [''fc-1''] \<lparr>callable_name = ''f'', callable_params = []\<rparr>
         [] False) (7::nat)) = Some 7 \<and>
   cancel_times 3 (set_cancel_callback
      (IOContext_new [''in-1''] [0] [''fc-1''] \<lparr>callable_name = ''f'', callable_params = []\<rparr>
         [] False) (7::nat)) =
     cancel (set_cancel_callback
      (IOContext_new [''in-1''] [0] [''fc-1''] \<lparr>callable_name = ''f'', callable_params = []\<rparr>
         [] False) 7) \<and>
   callbacks_called (snd (cancel_times 3 (set_cancel_callback
      (IOContext_new [''in-1''] [0] [''fc-1''] \<lparr>callable_name = ''f'', callable_params = []\<rparr>
         [] False) (7::nat)))) = [7]"
proof -
  have cb: "cancel_callback (set_cancel_callback
      (IOContext_new [''in-1''] [0] [''fc-1''] \<lparr>callable_name = ''f'', callable_params = []\<rparr>
         [] False) (7::nat)) = Some 7"
    by (simp add: set_cancel_callback_def)
  note all = cancel_idempotent [OF cb, THEN conjunct2]
  show ?thesis
    using cb all [THEN spec, of 3]
    by (simp add: set_cancel_callback_def IOContext_new_def cancel_def)
qed

section \<open>Properties of the heartbeat round\<close>

text \<open>
  C4, as the code has it. What decides the pause is whether the response carries a
  \<^verbatim>\<open>cancel_input_event\<close>, not whether any context was cancelled: with the event the
  next round starts after a sleep of one second, whatever the ids in it; with no event,
  or when the attempt raised an exception other than \<^verbatim>\<open>ClientClosed\<close>, the loop sleeps
  \<open>max 0 (heartbeat_interval - elapsed)\<close> after the round, where \<open>elapsed\<close> is the
  time since the round started, and nothing was cancelled. In particular a round in
  which a cancellation had any effect is followed by the one-second sleep.
\<close>

theorem heartbeat_round_pause:
  "snd (snd (heartbeat_round heartbeat_interval t (Responded (Some ids)) t0 t_end)) =
     SleepThenNext 1 \<and>
   heartbeat_round heartbeat_interval t (Responded None) t0 t_end =
     (t, [], SleepThenNext (max 0 (heartbeat_interval - (t_end - t0)))) \<and>
   heartbeat_round heartbeat_interval t RaisedException t0 t_end =
     (t, [], SleepThenNext (max 0 (heartbeat_interval - (t_end - t0)))) \<and>
   (fst (snd (heartbeat_round heartbeat_interval t attempt t0 t_end)) \<noteq> [] \<longrightarrow>
      snd (snd (heartbeat_round heartbeat_interval t attempt t0 t_end)) = SleepThenNext 1)"
  by (cases attempt)
     (auto simp: heartbeat_round_def heartbeat_handle_response_def split: prod.splits option.splits)

theorem heartbeat_round_pause_witness:
  "heartbeat_round 15
     \<lparr>current_inputs = [''in-1'' \<mapsto> 0],
      contexts = [0 \<mapsto> set_cancel_callback
        (IOContext_new [''in-1''] [0] [''fc-1''] \<lparr>callable_name = ''f'', callable_params = []\<rparr>
           [] False) (7::nat)]\<rparr>
     (Responded (Some [''in-1''])) 0 (1/4) =
   (\<lparr>current_inputs = [''in-1'' \<mapsto> 0],
      contexts = [0 \<mapsto> (set_cancel_callback
        (IOContext_new [''in-1''] [0] [''fc-1''] \<lparr>callable_name = ''f'', callable_params = []\<rparr>
           [] False) (7::nat))\<lparr>cancel_issued := True\<rparr>]\<rparr>,
    [WarnReceivedCancellation [''in-1''], CallCallback 7], SleepThenNext 1) \<and>
   [WarnReceivedCancellation [''in-1''], CallCallback (7::nat)] \<noteq> []"
  using heartbeat_round_pause
    [of 15 "\<lparr>current_inputs = [''in-1'' \<mapsto> 0],
      contexts = [0 \<mapsto> set_cancel_callback
        (IOContext_new [''in-1''] [0] [''fc-1''] \<lparr>callable_name = ''f'', callable_params = []\<rparr>
           [] False) (7::nat)]\<rparr>" "[''in-1'']" 0 "1/4" "Responded (Some [''in-1''])"]
  by (simp add: heartbeat_round_def heartbeat_handle_response_def cancel_input_def cancel_def
        set_cancel_callback_def IOContext_new_def)

text \<open>
  The claim as stated fails when the event names no input that is still running, for
  instance one whose output was already accepted: nothing is cancelled, the table is
  unchanged, and yet the loop sleeps one second, not \<open>max 0 (15 - 1/4)\<close>.
\<close>

theorem heartbeat_round_event_without_cancellation_counterexample:
  "heartbeat_round 15 (\<lparr>current_inputs = Map.empty, contexts = Map.empty\<rparr> :: nat InputTable)
     (Responded (Some [''in-1''])) 0 (1/4) =
   (\<lparr>current_inputs = Map.empty, contexts = Map.empty\<rparr>, [], SleepThenNext 1) \<and>
   SleepThenNext 1 \<noteq> SleepThenNext (max 0 (15 - (1/4 - 0)))"
  by (simp add: heartbeat_round_def heartbeat_handle_response_def cancel_input_def)

section \<open>Properties of the output path\<close>

lemma concat_slices: "concat (map (\<lambda>k. take n (drop (k * n) xs)) [0..<m]) = take (m * n) xs"
proof (induction m)
  case 0
  show ?case by simp
next
  case (Suc m)
  have "take (m * n) xs @ take n (drop (m * n) xs) = take (m * n + n) xs"
    by (simp add: take_add)
  with Suc show ?case by (simp add: add.commute)
qed

lemma concat_output_batches: "concat (output_batches xs) = xs"
proof -
  have "length xs \<le> ((length xs + 20 - 1) div 20) * 20"
    by presburger
  then show ?thesis
    by (simp add: output_batches_def output_batch_size_def concat_slices)
qed

lemma output_batches_bounded: "b \<in> set (output_batches xs) \<Longrightarrow> length b \<le> 20"
  by (auto simp: output_batches_def output_batch_size_def)

lemma items_put_append: "items_put (xs @ ys) = items_put xs @ items_put ys"
proof (induction xs)
  case Nil
  show ?case by simp
next
  case (Cons x xs)
  then show ?case by (cases x) simp_all
qed

lemma items_put_requests: "items_put (map PutOutputs bs) = concat bs"
  by (induction bs) simp_all

lemma items_put_push_outputs_rpc:
  "items_put (push_outputs_rpc e c t fmt rs) = compose_outputs e c t fmt rs"
  by (simp add: push_outputs_rpc_def items_put_requests concat_output_batches)

lemma compose_outputs_length:
  "length (retry_counts c) = length (input_ids c) \<Longrightarrow> length rs = length (input_ids c) \<Longrightarrow>
   length (compose_outputs e c t fmt rs) = length (input_ids c)"
  by (simp add: compose_outputs_def)

lemma compose_outputs_nth:
  "length (retry_counts c) = length (input_ids c) \<Longrightarrow> length rs = length (input_ids c) \<Longrightarrow>
   i < length (input_ids c) \<Longrightarrow>
   compose_outputs e c t fmt rs ! i =
     \<lparr>input_id = input_ids c ! i, input_started_at = t, output_created_at = time_now e,
      result = rs ! i, item_data_format = fmt, retry_count = retry_counts c ! i\<rparr>"
  by (simp add: compose_outputs_def)

text \<open>
  An \<^verbatim>\<open>InvalidError\<close> that reaches \<^verbatim>\<open>handle_input_exception\<close> is answered with one
  failure item per input id, each with the id's retry count and the same result.
\<close>

lemma invalid_error_broadcast:
  assumes "length (retry_counts c) = length (input_ids c)"
  shows "\<exists>effs. handle_input_exception e c t (InvalidError msg) = Handled effs \<and>
           length (items_put effs) = length (input_ids c) \<and>
           (\<forall>i < length (input_ids c).
              items_put effs ! i =
                \<lparr>input_id = input_ids c ! i, input_started_at = t,
                 output_created_at = time_now e,
                 result = result_failure e (InvalidError msg),
                 item_data_format = DATA_FORMAT_PICKLE,
                 retry_count = retry_counts c ! i\<rparr>)"
proof -
  let ?rs = "map (\<lambda>_. result_failure e (InvalidError msg)) (input_ids c)"
  let ?effs = "PrintException (InvalidError msg) #
     push_outputs_rpc e c t DATA_FORMAT_PICKLE ?rs @ [ExitContext t (input_ids c)]"
  have h: "handle_input_exception e c t (InvalidError msg) = Handled ?effs"
    by (simp add: handle_input_exception_def)
  have items: "items_put ?effs = compose_outputs e c t DATA_FORMAT_PICKLE ?rs"
    by (simp add: items_put_append items_put_push_outputs_rpc)
  have len: "length ?rs = length (input_ids c)"
    by simp
  have l: "length (items_put ?effs) = length (input_ids c)"
    using items compose_outputs_length [OF assms len] by simp
  have n: "\<forall>i < length (input_ids c).
      items_put ?effs ! i =
        \<lparr>input_id = input_ids c ! i, input_started_at = t, output_created_at = time_now e,
         result = result_failure e (InvalidError msg),
         item_data_format = DATA_FORMAT_PICKLE, retry_count = retry_counts c ! i\<rparr>"
    using items compose_outputs_nth [OF assms len] by simp
  from h l n show ?thesis by blast
qed

section \<open>Properties of the argument aggregation\<close>

lemma bind_args_some:
  "length pos \<le> length ps \<Longrightarrow>
   \<exists>m'. bind_args ps pos (Some m) = Inr (Some m') \<and> dom m \<subseteq> dom m' \<and>
         set (take (length pos) ps) \<subseteq> dom m'"
proof (induction ps pos "Some m" arbitrary: m rule: bind_args.induct)
  case (1 ps d)
  then show ?case by simp
next
  case (3 a rest d)
  then show ?case by simp
next
  case (4 p ps a rest d)
  then have "length rest \<le> length ps" by simp
  from "4.hyps" [OF this] show ?case by auto
qed

lemma bind_kwargs_step:
  "k \<in> set ps \<Longrightarrow> m k = None \<Longrightarrow>
   bind_kwargs f ps ((k, v) # kws) (Some m) = bind_kwargs f ps kws (Some (m(k \<mapsto> v)))"
  by simp

lemma bind_kwargs_stop:
  "k \<notin> set ps \<or> m k \<noteq> None \<Longrightarrow>
   \<exists>msg. bind_kwargs f ps ((k, v) # kws) (Some m) = Inl (InvalidError msg)"
  by auto

lemma bind_kwargs_some:
  "(\<exists>m'. bind_kwargs f ps kws (Some m) = Inr (Some m')) \<or>
   (\<exists>msg. bind_kwargs f ps kws (Some m) = Inl (InvalidError msg))"
proof (induction kws arbitrary: m)
  case Nil
  show ?case by simp
next
  case (Cons kv kws)
  obtain k v where kv: "kv = (k, v)" by (cases kv)
  show ?case
  proof (cases "k \<notin> set ps \<or> m k \<noteq> None")
    case True
    from bind_kwargs_stop [of k ps m f v kws] True show ?thesis
      unfolding kv by blast
  next
    case False
    then have step: "bind_kwargs f ps ((k, v) # kws) (Some m) =
        bind_kwargs f ps kws (Some (m(k \<mapsto> v)))"
      using bind_kwargs_step [of k ps m f v kws] by blast
    show ?thesis
      unfolding kv step by (rule Cons.IH)
  qed
qed

lemma bind_kwargs_rejects:
  "\<exists>k \<in> fst ` set kws. k \<notin> set ps \<or> k \<in> dom m \<Longrightarrow>
   \<exists>msg. bind_kwargs f ps kws (Some m) = Inl (InvalidError msg)"
proof (induction kws arbitrary: m)
  case Nil
  then show ?case by simp
next
  case (Cons kv kws)
  obtain k v where kv: "kv = (k, v)" by (cases kv)
  show ?case
  proof (cases "k \<notin> set ps \<or> m k \<noteq> None")
    case True
    from bind_kwargs_stop [of k ps m f v kws] True show ?thesis
      unfolding kv by blast
  next
    case False
    then have step: "bind_kwargs f ps ((k, v) # kws) (Some m) =
        bind_kwargs f ps kws (Some (m(k \<mapsto> v)))"
      using bind_kwargs_step [of k ps m f v kws] by blast
    from Cons.prems False have "\<exists>k' \<in> fst ` set kws. k' \<notin> set ps \<or> k' \<in> dom (m(k \<mapsto> v))"
      unfolding kv by auto
    then have "\<exists>msg. bind_kwargs f ps kws (Some (m(k \<mapsto> v))) = Inl (InvalidError msg)"
      by (rule Cons.IH)
    then show ?thesis
      unfolding kv step .
  qed
qed

lemma aggregate_input_result:
  assumes "i < length kbi"
  shows "(\<exists>kbi'. aggregate_input f ps kbi i call = Inr kbi' \<and> length kbi' = length kbi) \<or>
         (\<exists>msg. aggregate_input f ps kbi i call = Inl (InvalidError msg))"
proof -
  obtain pos kws where call: "call = (pos, kws)" by (cases call)
  show ?thesis
  proof (cases "length pos + length kws = length ps")
    case False
    then show ?thesis by (simp add: aggregate_input_def call)
  next
    case True
    then have "length pos \<le> length ps" by simp
    from bind_args_some [OF this, of "kbi ! i"]
    obtain m' where m': "bind_args ps pos (Some (kbi ! i)) = Inr (Some m')" by blast
    from bind_kwargs_some [of f ps kws m'] show ?thesis
      using True assms m' by (auto simp: aggregate_input_def call)
  qed
qed

lemma aggregate_input_rejects:
  assumes "i < length kbi"
    and "length pos + length kws \<noteq> length ps \<or>
         (\<exists>k \<in> fst ` set kws. k \<notin> set ps) \<or>
         (\<exists>k \<in> fst ` set kws. k \<in> set (take (length pos) ps))"
  shows "\<exists>msg. aggregate_input f ps kbi i (pos, kws) = Inl (InvalidError msg)"
proof (cases "length pos + length kws = length ps")
  case False
  then show ?thesis by (simp add: aggregate_input_def)
next
  case True
  then have "length pos \<le> length ps" by simp
  from bind_args_some [OF this, of "kbi ! i"]
  obtain m' where m': "bind_args ps pos (Some (kbi ! i)) = Inr (Some m')"
    and bound: "set (take (length pos) ps) \<subseteq> dom m'" by blast
  from assms(2) True bound have "\<exists>k \<in> fst ` set kws. k \<notin> set ps \<or> k \<in> dom m'"
    by blast
  from bind_kwargs_rejects [OF this, of f]
  obtain msg where "bind_kwargs f ps kws (Some m') = Inl (InvalidError msg)" by blast
  then show ?thesis
    using True assms(1) m' by (simp add: aggregate_input_def)
qed

lemma aggregate_inputs_rejects:
  "i + length calls \<le> length kbi \<Longrightarrow>
   \<exists>(pos, kws) \<in> set calls.
      length pos + length kws \<noteq> length ps \<or>
      (\<exists>k \<in> fst ` set kws. k \<notin> set ps) \<or>
      (\<exists>k \<in> fst ` set kws. k \<in> set (take (length pos) ps)) \<Longrightarrow>
   \<exists>msg. aggregate_inputs f ps kbi i calls = Inl (InvalidError msg)"
proof (induction calls arbitrary: kbi i)
  case Nil
  then show ?case by simp
next
  case (Cons call calls)
  from Cons.prems(1) have i: "i < length kbi" by simp
  obtain pos kws where call: "call = (pos, kws)" by (cases call)
  show ?case
  proof (cases "\<exists>msg. aggregate_input f ps kbi i call = Inl (InvalidError msg)")
    case True
    then show ?thesis by auto
  next
    case False
    with aggregate_input_result [OF i, of f ps call]
    obtain kbi' where ok: "aggregate_input f ps kbi i call = Inr kbi'"
      and len: "length kbi' = length kbi" by blast
    from False aggregate_input_rejects [OF i, of pos kws ps f] call
    have "\<not> (length pos + length kws \<noteq> length ps \<or>
         (\<exists>k \<in> fst ` set kws. k \<notin> set ps) \<or>
         (\<exists>k \<in> fst ` set kws. k \<in> set (take (length pos) ps)))"
      by blast
    with Cons.prems(2) call
    have later: "\<exists>(pos, kws) \<in> set calls.
      length pos + length kws \<noteq> length ps \<or>
      (\<exists>k \<in> fst ` set kws. k \<notin> set ps) \<or>
      (\<exists>k \<in> fst ` set kws. k \<in> set (take (length pos) ps))"
      by auto
    from Cons.prems(1) len have "Suc i + length calls \<le> length kbi'" by simp
    from Cons.IH [OF this later] ok show ?thesis by simp
  qed
qed

lemma deserialize_all_length:
  "deserialize_all e inps = Inr ds \<Longrightarrow> length ds = length inps"
  by (induction inps arbitrary: ds) (auto split: sum.splits)

text \<open>
  C5. Take a batched context whose lists have one entry per input, as \<^verbatim>\<open>create\<close>
  builds them, and whose inputs all deserialize. If one invocation has a number of
  positional plus keyword arguments other than the number of parameters, or a keyword
  that is no parameter name, or a keyword naming a parameter that a positional argument
  already fills, then \<^verbatim>\<open>_args_and_kwargs\<close> raises an \<^verbatim>\<open>InvalidError\<close>, and
  \<^verbatim>\<open>handle_input_exception\<close> answers that error with exactly one \<^verbatim>\<open>FAILURE\<close> item per
  input id, in order, each with the id's retry count and the same result.
\<close>

theorem batch_argument_violation_fails_every_input:
  assumes "is_batched c"
    and "length (function_inputs c) = length (input_ids c)"
    and "length (retry_counts c) = length (input_ids c)"
    and "deserialize_all e (function_inputs c) = Inr ds"
    and "(pos, kws) \<in> set ds"
    and "length pos + length kws \<noteq> length (callable_params (finalized_function c)) \<or>
         (\<exists>k \<in> fst ` set kws. k \<notin> set (callable_params (finalized_function c))) \<or>
         (\<exists>k \<in> fst ` set kws.
            k \<in> set (take (length pos) (callable_params (finalized_function c))))"
  shows "\<exists>msg. args_and_kwargs e c = Inl (InvalidError msg) \<and>
           (\<exists>effs. handle_input_exception e c t (InvalidError msg) = Handled effs \<and>
              length (items_put effs) = length (input_ids c) \<and>
              (\<forall>i < length (input_ids c).
                 items_put effs ! i =
                   \<lparr>input_id = input_ids c ! i, input_started_at = t,
                    output_created_at = time_now e,
                    result = result_failure e (InvalidError msg),
                    item_data_format = DATA_FORMAT_PICKLE,
                    retry_count = retry_counts c ! i\<rparr>) \<and>
              status (result_failure e (InvalidError msg)) = GENERIC_STATUS_FAILURE)"
proof -
  let ?ps = "callable_params (finalized_function c)"
  let ?f = "callable_name (finalized_function c)"
  let ?kbi = "replicate (length (input_ids c)) Map.empty :: (string \<rightharpoonup> pyval) list"
  have "length ds = length (input_ids c)"
    using deserialize_all_length [OF assms(4)] assms(2) by simp
  then have fits: "0 + length ds \<le> length ?kbi" by simp
  have bad: "\<exists>(pos, kws) \<in> set ds.
      length pos + length kws \<noteq> length ?ps \<or>
      (\<exists>k \<in> fst ` set kws. k \<notin> set ?ps) \<or>
      (\<exists>k \<in> fst ` set kws. k \<in> set (take (length pos) ?ps))"
    using assms(5,6) by (intro bexI [of _ "(pos, kws)"]) simp_all
  from aggregate_inputs_rejects [OF fits bad, of ?f]
  obtain msg where "aggregate_inputs ?f ?ps ?kbi 0 ds = Inl (InvalidError msg)" by blast
  then have raised: "args_and_kwargs e c = Inl (InvalidError msg)"
    using assms(1,4) by (simp add: args_and_kwargs_def)
  have "status (result_failure e (InvalidError msg)) = GENERIC_STATUS_FAILURE"
    by (simp add: result_failure_def)
  with raised invalid_error_broadcast [OF assms(3), of e t msg] show ?thesis
    by blast
qed

lemma fixture_created:
  "create fixture_env fixture_functions fixture_inputs True = Inr fixture_context"
  by (simp add: create_def fixture_env_def fixture_functions_def fixture_inputs_def
        fixture_context_def populate_input_blobs_def Let_def)

lemma fixture_arg_count_message:
  "args_and_kwargs fixture_env fixture_context =
     Inl (InvalidError ''Modal batched function batch_function_sync takes 2 positional arguments, but one invocation in the batch has 3.'')"
proof -
  have n: "str_nat (Suc (Suc 0)) = ''2''" "str_nat (Suc (Suc (Suc 0))) = ''3''"
    by code_simp+
  show ?thesis
    by (simp add: args_and_kwargs_def fixture_env_def fixture_context_def IOContext_new_def
          deserialize_input_def input_args_def aggregate_input_def msg_arg_count_def n)
qed

theorem batch_argument_violation_fails_every_input_witness:
  "create fixture_env fixture_functions fixture_inputs True = Inr fixture_context \<and>
   is_batched fixture_context \<and>
   length (function_inputs fixture_context) = length (input_ids fixture_context) \<and>
   length (retry_counts fixture_context) = length (input_ids fixture_context) \<and>
   deserialize_all fixture_env (function_inputs fixture_context) =
     Inr [([PInt 10, PInt 5], []), ([PInt 10, PInt 5, PInt 1], [])] \<and>
   length [PInt 10, PInt 5, PInt 1] + length ([] :: (string \<times> pyval) list) \<noteq>
     length (callable_params (finalized_function fixture_context)) \<and>
   args_and_kwargs fixture_env fixture_context =
     Inl (InvalidError ''Modal batched function batch_function_sync takes 2 positional arguments, but one invocation in the batch has 3.'') \<and>
   (\<exists>effs.
      handle_input_exception fixture_env fixture_context 1
        (InvalidError ''Modal batched function batch_function_sync takes 2 positional arguments, but one invocation in the batch has 3.'') =
        Handled effs \<and>
      map input_id (items_put effs) = [''in-1'', ''in-2''] \<and>
      map retry_count (items_put effs) = [0, 1] \<and>
      map (\<lambda>i. status (result i)) (items_put effs) =
        [GENERIC_STATUS_FAILURE, GENERIC_STATUS_FAILURE])"
proof -
  let ?m = "''Modal batched function batch_function_sync takes 2 positional arguments, but one invocation in the batch has 3.''"
  let ?ds = "[([PInt 10, PInt 5], []), ([PInt 10, PInt 5, PInt 1], [])] ::
    (pyval list \<times> (string \<times> pyval) list) list"
  have h1: "is_batched fixture_context"
    by (simp add: fixture_context_def IOContext_new_def)
  have h2: "length (function_inputs fixture_context) = length (input_ids fixture_context)"
    by (simp add: fixture_context_def IOContext_new_def)
  have h3: "length (retry_counts fixture_context) = length (input_ids fixture_context)"
    by (simp add: fixture_context_def IOContext_new_def)
  have h4: "deserialize_all fixture_env (function_inputs fixture_context) = Inr ?ds"
    by (simp add: fixture_context_def IOContext_new_def fixture_env_def deserialize_input_def
          input_args_def)
  have h5: "([PInt 10, PInt 5, PInt 1], []) \<in> set ?ds"
    by simp
  have h6: "length [PInt 10, PInt 5, PInt 1] + length ([] :: (string \<times> pyval) list) \<noteq>
      length (callable_params (finalized_function fixture_context))"
    by (simp add: fixture_context_def IOContext_new_def)
  from batch_argument_violation_fails_every_input [OF h1 h2 h3 h4 h5 disjI1, OF h6, of 1]
  obtain msg effs where a: "args_and_kwargs fixture_env fixture_context = Inl (InvalidError msg)"
    and b: "handle_input_exception fixture_env fixture_context 1 (InvalidError msg) = Handled effs"
    and l: "length (items_put effs) = length (input_ids fixture_context)"
    and n: "\<forall>i < length (input_ids fixture_context).
                 items_put effs ! i =
                   \<lparr>input_id = input_ids fixture_context ! i, input_started_at = 1,
                    output_created_at = time_now fixture_env,
                    result = result_failure fixture_env (InvalidError msg),
                    item_data_format = DATA_FORMAT_PICKLE,
                    retry_count = retry_counts fixture_context ! i\<rparr>"
    and s: "status (result_failure fixture_env (InvalidError msg)) = GENERIC_STATUS_FAILURE"
    by blast
  from a fixture_arg_count_message have msg: "msg = ?m"
    by simp
  have ids: "input_ids fixture_context = [''in-1'', ''in-2'']"
    and rcs: "retry_counts fixture_context = [0, 1]"
    by (simp_all add: fixture_context_def IOContext_new_def)
  from l ids obtain x y where xy: "items_put effs = [x, y]"
    by (cases "items_put effs"; cases "tl (items_put effs)") auto
  from n [THEN spec, of 0] n [THEN spec, of 1] ids rcs xy
  have "input_id x = ''in-1''" "input_id y = ''in-2''" "retry_count x = 0" "retry_count y = 1"
    "result x = result_failure fixture_env (InvalidError msg)"
    "result y = result_failure fixture_env (InvalidError msg)"
    by simp_all
  with s xy have items: "map input_id (items_put effs) = [''in-1'', ''in-2'']"
    "map retry_count (items_put effs) = [0, 1]"
    "map (\<lambda>i. status (result i)) (items_put effs) =
        [GENERIC_STATUS_FAILURE, GENERIC_STATUS_FAILURE]"
    by simp_all
  from b msg have b': "handle_input_exception fixture_env fixture_context 1 (InvalidError ?m) =
      Handled effs"
    by simp
  from b' items have "\<exists>effs.
      handle_input_exception fixture_env fixture_context 1 (InvalidError ?m) = Handled effs \<and>
      map input_id (items_put effs) = [''in-1'', ''in-2''] \<and>
      map retry_count (items_put effs) = [0, 1] \<and>
      map (\<lambda>i. status (result i)) (items_put effs) =
        [GENERIC_STATUS_FAILURE, GENERIC_STATUS_FAILURE]"
    by (intro exI [of _ effs] conjI)
  with fixture_created h1 h2 h3 h4 h6 fixture_arg_count_message show ?thesis
    by (intro conjI)
qed

section \<open>Properties of the output validation\<close>

lemma serialize_all_length:
  "serialize_all e fmt xs = Inr bs \<Longrightarrow> length bs = length xs"
  by (induction xs arbitrary: bs) (auto split: sum.splits)

lemma validate_output_data_rejects:
  "is_batched c \<Longrightarrow> \<forall>xs. d = PList xs \<longrightarrow> length xs \<noteq> length (input_ids c) \<Longrightarrow>
   \<exists>msg. validate_output_data c d = Inl (InvalidError msg)"
  by (cases d) (simp_all add: validate_output_data_def)

text \<open>
  C6. Take a batched context with a retry count for every input id, as \<^verbatim>\<open>create\<close>
  builds it, and let \<open>N\<close> be the number of its input ids. If the function returned a
  list of length \<open>N\<close> whose elements serialize, \<^verbatim>\<open>push_outputs\<close> composes exactly \<open>N\<close>
  items: item \<open>i\<close> carries input id \<open>i\<close>, its retry count and the success result made
  from element \<open>i\<close>. If the return value is not a list, or a list of another length,
  validation raises an \<^verbatim>\<open>InvalidError\<close>, \<^verbatim>\<open>push_outputs\<close> sends nothing, and
  \<^verbatim>\<open>handle_input_exception\<close> answers the error with one failure item per input id.
\<close>

theorem batched_output_validation:
  assumes "is_batched c"
    and "length (retry_counts c) = length (input_ids c)"
  shows "(\<forall>xs bs. d = PList xs \<and> length xs = length (input_ids c) \<and>
            serialize_all e fmt xs = Inr bs \<longrightarrow>
            validate_output_data c d = Inr xs \<and>
            (\<exists>effs. push_outputs e c t d fmt = Inr effs \<and>
               length (items_put effs) = length (input_ids c) \<and>
               (\<forall>i < length (input_ids c).
                  items_put effs ! i =
                    \<lparr>input_id = input_ids c ! i, input_started_at = t,
                     output_created_at = time_now e,
                     result = result_success (format_blob_data e (bs ! i)),
                     item_data_format = fmt,
                     retry_count = retry_counts c ! i\<rparr>))) \<and>
         ((\<forall>xs. d = PList xs \<longrightarrow> length xs \<noteq> length (input_ids c)) \<longrightarrow>
            (\<exists>msg. validate_output_data c d = Inl (InvalidError msg) \<and>
               push_outputs e c t d fmt = Inl (InvalidError msg) \<and>
               (\<exists>effs. handle_input_exception e c t (InvalidError msg) = Handled effs \<and>
                  length (items_put effs) = length (input_ids c) \<and>
                  (\<forall>i < length (input_ids c).
                     items_put effs ! i =
                       \<lparr>input_id = input_ids c ! i, input_started_at = t,
                        output_created_at = time_now e,
                        result = result_failure e (InvalidError msg),
                        item_data_format = DATA_FORMAT_PICKLE,
                        retry_count = retry_counts c ! i\<rparr>) \<and>
                  status (result_failure e (InvalidError msg)) = GENERIC_STATUS_FAILURE)))"
proof (intro conjI allI impI)
  fix xs bs
  assume ok: "d = PList xs \<and> length xs = length (input_ids c) \<and>
    serialize_all e fmt xs = Inr bs"
  then have v: "validate_output_data c d = Inr xs"
    using assms(1) by (simp add: validate_output_data_def)
  then show "validate_output_data c d = Inr xs" .
  let ?rs = "map (\<lambda>b. result_success (format_blob_data e b)) bs"
  let ?effs = "push_outputs_rpc e c t fmt ?rs @ [ExitContext t (input_ids c)]"
  have p: "push_outputs e c t d fmt = Inr ?effs"
    using v ok by (simp add: push_outputs_def)
  have len: "length ?rs = length (input_ids c)"
    using ok serialize_all_length [of e fmt xs bs] by simp
  have items: "items_put ?effs = compose_outputs e c t fmt ?rs"
    by (simp add: items_put_append items_put_push_outputs_rpc)
  have l: "length (items_put ?effs) = length (input_ids c)"
    using items compose_outputs_length [OF assms(2) len] by simp
  have n: "\<forall>i < length (input_ids c).
      items_put ?effs ! i =
        \<lparr>input_id = input_ids c ! i, input_started_at = t, output_created_at = time_now e,
         result = result_success (format_blob_data e (bs ! i)),
         item_data_format = fmt, retry_count = retry_counts c ! i\<rparr>"
    using items compose_outputs_nth [OF assms(2) len] len by simp
  from p l n show "\<exists>effs. push_outputs e c t d fmt = Inr effs \<and>
               length (items_put effs) = length (input_ids c) \<and>
               (\<forall>i < length (input_ids c).
                  items_put effs ! i =
                    \<lparr>input_id = input_ids c ! i, input_started_at = t,
                     output_created_at = time_now e,
                     result = result_success (format_blob_data e (bs ! i)),
                     item_data_format = fmt,
                     retry_count = retry_counts c ! i\<rparr>)"
    by blast
next
  assume bad: "\<forall>xs. d = PList xs \<longrightarrow> length xs \<noteq> length (input_ids c)"
  from validate_output_data_rejects [OF assms(1) bad]
  obtain msg where v: "validate_output_data c d = Inl (InvalidError msg)" by blast
  then have p: "push_outputs e c t d fmt = Inl (InvalidError msg)"
    by (simp add: push_outputs_def)
  have "status (result_failure e (InvalidError msg)) = GENERIC_STATUS_FAILURE"
    by (simp add: result_failure_def)
  with v p invalid_error_broadcast [OF assms(2), of e t msg]
  show "\<exists>msg. validate_output_data c d = Inl (InvalidError msg) \<and>
               push_outputs e c t d fmt = Inl (InvalidError msg) \<and>
               (\<exists>effs. handle_input_exception e c t (InvalidError msg) = Handled effs \<and>
                  length (items_put effs) = length (input_ids c) \<and>
                  (\<forall>i < length (input_ids c).
                     items_put effs ! i =
                       \<lparr>input_id = input_ids c ! i, input_started_at = t,
                        output_created_at = time_now e,
                        result = result_failure e (InvalidError msg),
                        item_data_format = DATA_FORMAT_PICKLE,
                        retry_count = retry_counts c ! i\<rparr>) \<and>
                  status (result_failure e (InvalidError msg)) = GENERIC_STATUS_FAILURE)"
    by blast
qed

theorem batched_output_validation_witness:
  "is_batched fixture_context \<and>
   length (retry_counts fixture_context) = length (input_ids fixture_context) \<and>
   length [PInt 15, PInt 16] = length (input_ids fixture_context) \<and>
   serialize_all fixture_env DATA_FORMAT_PICKLE [PInt 15, PInt 16] = Inr [''15'', ''16''] \<and>
   (\<exists>effs.
      push_outputs fixture_env fixture_context 1 (PList [PInt 15, PInt 16]) DATA_FORMAT_PICKLE =
        Inr effs \<and>
      map input_id (items_put effs) = [''in-1'', ''in-2''] \<and>
      map retry_count (items_put effs) = [0, 1] \<and>
      map result (items_put effs) =
        [result_success (Data ''15''), result_success (Data ''16'')]) \<and>
   length [PInt 15] \<noteq> length (input_ids fixture_context) \<and>
   validate_output_data fixture_context (PList [PInt 15]) =
     Inl (InvalidError ''Output of batched function batch_function_sync must be a list of equal length as its inputs.'') \<and>
   (\<exists>effs.
      handle_input_exception fixture_env fixture_context 1
        (InvalidError ''Output of batched function batch_function_sync must be a list of equal length as its inputs.'') =
        Handled effs \<and>
      length (items_put effs) = 2)"
proof -
  let ?m = "''Output of batched function batch_function_sync must be a list of equal length as its inputs.''"
  have h1: "is_batched fixture_context"
    by (simp add: fixture_context_def IOContext_new_def)
  have h2: "length (retry_counts fixture_context) = length (input_ids fixture_context)"
    by (simp add: fixture_context_def IOContext_new_def)
  have ids: "input_ids fixture_context = [''in-1'', ''in-2'']"
    and rcs: "retry_counts fixture_context = [0, 1]"
    by (simp_all add: fixture_context_def IOContext_new_def)
  have h3: "length [PInt 15, PInt 16] = length (input_ids fixture_context)"
    by (simp add: ids)
  have n: "str_int 15 = ''15''" "str_int 16 = ''16''"
    by code_simp+
  have h4: "serialize_all fixture_env DATA_FORMAT_PICKLE [PInt 15, PInt 16] = Inr [''15'', ''16'']"
    by (simp add: fixture_env_def n)
  note good = batched_output_validation
      [OF h1 h2, of "PList [PInt 15, PInt 16]" fixture_env DATA_FORMAT_PICKLE 1,
       THEN conjunct1, THEN spec, THEN spec, THEN mp, OF conjI, OF refl conjI, OF h3 h4]
  then obtain effs where p: "push_outputs fixture_env fixture_context 1
        (PList [PInt 15, PInt 16]) DATA_FORMAT_PICKLE = Inr effs"
    and l: "length (items_put effs) = length (input_ids fixture_context)"
    and nth: "\<forall>i < length (input_ids fixture_context).
                  items_put effs ! i =
                    \<lparr>input_id = input_ids fixture_context ! i, input_started_at = 1,
                     output_created_at = time_now fixture_env,
                     result = result_success (format_blob_data fixture_env ([''15'', ''16''] ! i)),
                     item_data_format = DATA_FORMAT_PICKLE,
                     retry_count = retry_counts fixture_context ! i\<rparr>"
    by blast
  from l ids obtain x y where xy: "items_put effs = [x, y]"
    by (cases "items_put effs"; cases "tl (items_put effs)") auto
  have blob: "format_blob_data fixture_env ''15'' = Data ''15''"
    "format_blob_data fixture_env ''16'' = Data ''16''"
    by (simp_all add: format_blob_data_def fixture_env_def)
  from nth [THEN spec, of 0] nth [THEN spec, of 1] ids rcs xy blob
  have "input_id x = ''in-1''" "input_id y = ''in-2''" "retry_count x = 0" "retry_count y = 1"
    "result x = result_success (Data ''15'')" "result y = result_success (Data ''16'')"
    by simp_all
  with xy have items: "map input_id (items_put effs) = [''in-1'', ''in-2'']"
    "map retry_count (items_put effs) = [0, 1]"
    "map result (items_put effs) = [result_success (Data ''15''), result_success (Data ''16'')]"
    by simp_all
  from p items have success: "\<exists>effs.
      push_outputs fixture_env fixture_context 1 (PList [PInt 15, PInt 16]) DATA_FORMAT_PICKLE =
        Inr effs \<and>
      map input_id (items_put effs) = [''in-1'', ''in-2''] \<and>
      map retry_count (items_put effs) = [0, 1] \<and>
      map result (items_put effs) =
        [result_success (Data ''15''), result_success (Data ''16'')]"
    by (intro exI [of _ effs] conjI)
  have h5: "length [PInt 15] \<noteq> length (input_ids fixture_context)"
    by (simp add: ids)
  have v: "validate_output_data fixture_context (PList [PInt 15]) = Inl (InvalidError ?m)"
    by (simp add: validate_output_data_def fixture_context_def IOContext_new_def)
  have bad: "\<forall>xs. PList [PInt 15] = PList xs \<longrightarrow> length xs \<noteq> length (input_ids fixture_context)"
    by (simp add: ids)
  from batched_output_validation
      [OF h1 h2, of "PList [PInt 15]" fixture_env DATA_FORMAT_PICKLE 1, THEN conjunct2,
       THEN mp, OF bad]
  obtain msg effs' where v': "validate_output_data fixture_context (PList [PInt 15]) =
      Inl (InvalidError msg)"
    and hd: "handle_input_exception fixture_env fixture_context 1 (InvalidError msg) =
      Handled effs'"
    and l': "length (items_put effs') = length (input_ids fixture_context)"
    by blast
  from v v' have "msg = ?m" by simp
  with hd l' ids have failure: "\<exists>effs.
      handle_input_exception fixture_env fixture_context 1 (InvalidError ?m) = Handled effs \<and>
      length (items_put effs) = 2"
    by (intro exI [of _ effs']) simp
  from h1 h2 h3 h4 success h5 v failure show ?thesis
    by (intro conjI)
qed

section \<open>Properties of the generator output sink\<close>

lemma drain_keeps_messages:
  "drain e fmt msgs sz evs = Drained msgs' seen rest \<Longrightarrow> length msgs \<le> length msgs'"
proof (induction evs arbitrary: msgs sz)
  case Nil
  then show ?case by simp
next
  case (Cons ev evs)
  then show ?case
    by (cases ev) (fastforce split: if_splits sum.splits)+
qed

lemma put_data_out_length:
  "length (data_chunks (put_data_out e fc i fmt msgs)) = length msgs"
  by (simp add: put_data_out_def)

lemma enumerate_indices:
  "map (\<lambda>(j, m). f j) (List.enumerate 0 xs) = map f [0..<length xs]"
  by (rule nth_equalityI) (simp_all add: nth_enumerate_eq)

lemma put_data_out_indices:
  "map index (data_chunks (put_data_out e fc i fmt msgs)) =
     map (\<lambda>j. i + int j) [0..<length msgs]"
proof -
  have "map index (data_chunks (put_data_out e fc i fmt msgs)) =
      map (\<lambda>(j, m). i + int j) (List.enumerate 0 msgs)"
    by (simp add: put_data_out_def split_def)
  then show ?thesis by (simp add: enumerate_indices)
qed

lemma loop_indices:
  "k < length (fst (generator_output_loop e fc fmt i evs)) \<Longrightarrow>
   data_chunks (fst (generator_output_loop e fc fmt i evs) ! k) \<noteq> [] \<and>
   map index (data_chunks (fst (generator_output_loop e fc fmt i evs) ! k)) =
     map (\<lambda>j. i + int (sum_list (map (\<lambda>r. length (data_chunks r))
                 (take k (fst (generator_output_loop e fc fmt i evs))))) + int j)
         [0..<length (data_chunks (fst (generator_output_loop e fc fmt i evs) ! k))]"
proof (induction e fc fmt i evs arbitrary: k rule: generator_output_loop.induct)
  case (1 e fc_id fmt idx)
  then show ?case by simp
next
  case (2 e fc_id fmt idx evs)
  then show ?case by simp
next
  case (3 e fc_id fmt idx evs)
  then show ?case by simp
next
  case (4 e fc_id fmt idx message evs)
  show ?case
  proof (cases "serialize_data_format e message fmt")
    case (Inl x)
    with "4.prems" show ?thesis by simp
  next
    case (Inr b)
    show ?thesis
    proof (cases "drain e fmt [b] (length b + 512) evs")
      case (DrainRaised x)
      with Inr "4.prems" show ?thesis by simp
    next
      case (Drained msgs seen rest)
      let ?req = "put_data_out e fc_id idx fmt msgs"
      from drain_keeps_messages [OF Drained] have ne: "msgs \<noteq> []" by auto
      then have req_ne: "data_chunks ?req \<noteq> []"
        using put_data_out_length [of e fc_id idx fmt msgs] by auto
      have req_idx: "map index (data_chunks ?req) =
          map (\<lambda>j. idx + int j) [0..<length (data_chunks ?req)]"
        by (simp add: put_data_out_indices put_data_out_length)
      show ?thesis
      proof (cases seen)
        case True
        with Inr Drained have L: "fst (generator_output_loop e fc_id fmt idx (Got message # evs)) = [?req]"
          by simp
        with "4.prems" have "k = 0" by simp
        with L req_ne req_idx show ?thesis by simp
      next
        case False
        let ?tail = "fst (generator_output_loop e fc_id fmt (idx + int (length msgs)) rest)"
        from False Inr Drained
        have L: "fst (generator_output_loop e fc_id fmt idx (Got message # evs)) = ?req # ?tail"
          by (simp add: split_def)
        show ?thesis
        proof (cases k)
          case 0
          with L req_ne req_idx show ?thesis by simp
        next
          case (Suc k')
          with "4.prems" L have "k' < length ?tail" by simp
          from "4.IH" [OF Inr Drained refl False this]
          show ?thesis
            unfolding L Suc
            by (simp add: put_data_out_length add.assoc)
        qed
      qed
    qed
  qed
qed

lemma map_upt_split:
  "map f [0..<a + b] = map f [0..<a] @ map (\<lambda>j. f (a + j)) [0..<b]"
proof -
  have "[0..<a + b] = [0..<a] @ [a..<a + b]"
    by (rule upt_add_eq_append) simp
  also have "[a..<a + b] = map (\<lambda>j. a + j) [0..<b]"
    by (rule nth_equalityI) simp_all
  finally show ?thesis by (simp add: comp_def)
qed

lemma loop_all_indices:
  "map index (concat (map data_chunks (fst (generator_output_loop e fc fmt i evs)))) =
     map (\<lambda>j. i + int j)
       [0..<length (concat (map data_chunks (fst (generator_output_loop e fc fmt i evs))))]"
proof (induction e fc fmt i evs rule: generator_output_loop.induct)
  case (1 e fc_id fmt idx)
  then show ?case by simp
next
  case (2 e fc_id fmt idx evs)
  then show ?case by simp
next
  case (3 e fc_id fmt idx evs)
  then show ?case by simp
next
  case (4 e fc_id fmt idx message evs)
  show ?case
  proof (cases "serialize_data_format e message fmt")
    case (Inl x)
    then show ?thesis by simp
  next
    case (Inr b)
    show ?thesis
    proof (cases "drain e fmt [b] (length b + 512) evs")
      case (DrainRaised x)
      with Inr show ?thesis by simp
    next
      case (Drained msgs seen rest)
      let ?req = "put_data_out e fc_id idx fmt msgs"
      have req_idx: "map index (data_chunks ?req) = map (\<lambda>j. idx + int j) [0..<length msgs]"
        by (rule put_data_out_indices)
      show ?thesis
      proof (cases seen)
        case True
        with Inr Drained have L: "fst (generator_output_loop e fc_id fmt idx (Got message # evs)) = [?req]"
          by simp
        show ?thesis
          unfolding L using req_idx by (simp add: put_data_out_length)
      next
        case False
        let ?tail = "fst (generator_output_loop e fc_id fmt (idx + int (length msgs)) rest)"
        from False Inr Drained
        have L: "fst (generator_output_loop e fc_id fmt idx (Got message # evs)) = ?req # ?tail"
          by (simp add: split_def)
        note IH = "4.IH" [OF Inr Drained refl False]
        show ?thesis
          unfolding L using req_idx IH
          by (simp add: put_data_out_length map_upt_split add.assoc)
      qed
    qed
  qed
qed

lemma consecutive_strict: "sorted_wrt (<) (map (\<lambda>j. (i::int) + int j) [0..<n])"
  by (simp add: sorted_wrt_map sorted_wrt_iff_nth_less)

text \<open>
  C7. Whatever the reads of the queue find, the requests that the task sends for a
  function call are numbered without gap from 1: every request carries at least one
  chunk, the chunks of request \<open>k\<close> are numbered consecutively from 1 plus the number
  of chunks in the requests before it, and so the indices of all chunks, in the order
  in which they are sent, are \<open>1, 2, 3, \<dots>\<close> and strictly increasing.
\<close>

theorem generator_chunk_indices:
  "(\<forall>k < length (fst (generator_output_task e fc fmt evs)).
      data_chunks (fst (generator_output_task e fc fmt evs) ! k) \<noteq> [] \<and>
      map index (data_chunks (fst (generator_output_task e fc fmt evs) ! k)) =
        map (\<lambda>j. 1 + int (sum_list (map (\<lambda>r. length (data_chunks r))
                    (take k (fst (generator_output_task e fc fmt evs))))) + int j)
            [0..<length (data_chunks (fst (generator_output_task e fc fmt evs) ! k))]) \<and>
   map index (concat (map data_chunks (fst (generator_output_task e fc fmt evs)))) =
     map (\<lambda>j. 1 + int j)
       [0..<length (concat (map data_chunks (fst (generator_output_task e fc fmt evs))))] \<and>
   sorted_wrt (<)
     (map index (concat (map data_chunks (fst (generator_output_task e fc fmt evs)))))"
proof (intro conjI allI impI)
  fix k
  assume "k < length (fst (generator_output_task e fc fmt evs))"
  then have k: "k < length (fst (generator_output_loop e fc fmt 1 evs))"
    by (simp add: generator_output_task_def)
  from loop_indices [OF k]
  show "data_chunks (fst (generator_output_task e fc fmt evs) ! k) \<noteq> []"
    and "map index (data_chunks (fst (generator_output_task e fc fmt evs) ! k)) =
        map (\<lambda>j. 1 + int (sum_list (map (\<lambda>r. length (data_chunks r))
                    (take k (fst (generator_output_task e fc fmt evs))))) + int j)
            [0..<length (data_chunks (fst (generator_output_task e fc fmt evs) ! k))]"
    by (simp_all add: generator_output_task_def)
next
  show all: "map index (concat (map data_chunks (fst (generator_output_task e fc fmt evs)))) =
     map (\<lambda>j. 1 + int j)
       [0..<length (concat (map data_chunks (fst (generator_output_task e fc fmt evs))))]"
    unfolding generator_output_task_def by (rule loop_all_indices)
  show "sorted_wrt (<)
     (map index (concat (map data_chunks (fst (generator_output_task e fc fmt evs)))))"
    unfolding all by (rule consecutive_strict)
qed

lemma fixture_stream:
  "fst (generator_output_task fixture_env ''fc-1'' DATA_FORMAT_PICKLE
     [QueueEmpty, Got (PInt 1), Got (PInt 2), QueueEmpty, QueueEmpty, Got (PInt 3),
      QueueEmpty, Got (PInt 4), Got (PInt 5), GotSentinel]) =
   [\<lparr>function_call_id = ''fc-1'',
     data_chunks =
       [\<lparr>chunk_data_format = DATA_FORMAT_PICKLE, index = 1, chunk_data = Data ''1''\<rparr>,
        \<lparr>chunk_data_format = DATA_FORMAT_PICKLE, index = 2, chunk_data = Data ''2''\<rparr>]\<rparr>,
    \<lparr>function_call_id = ''fc-1'',
     data_chunks =
       [\<lparr>chunk_data_format = DATA_FORMAT_PICKLE, index = 3, chunk_data = Data ''3''\<rparr>]\<rparr>,
    \<lparr>function_call_id = ''fc-1'',
     data_chunks =
       [\<lparr>chunk_data_format = DATA_FORMAT_PICKLE, index = 4, chunk_data = Data ''4''\<rparr>,
        \<lparr>chunk_data_format = DATA_FORMAT_PICKLE, index = 5, chunk_data = Data ''5''\<rparr>]\<rparr>]"
proof -
  have n: "str_int 1 = ''1''" "str_int 2 = ''2''" "str_int 3 = ''3''" "str_int 4 = ''4''"
    "str_int 5 = ''5''"
    by code_simp+
  show ?thesis
    by (simp add: generator_output_task_def fixture_env_def n put_data_out_def)
qed

theorem generator_chunk_indices_witness:
  "map (\<lambda>r. map index (data_chunks r))
     (fst (generator_output_task fixture_env ''fc-1'' DATA_FORMAT_PICKLE
        [QueueEmpty, Got (PInt 1), Got (PInt 2), QueueEmpty, QueueEmpty, Got (PInt 3),
         QueueEmpty, Got (PInt 4), Got (PInt 5), GotSentinel])) = [[1, 2], [3], [4, 5]] \<and>
   2 < length (fst (generator_output_task fixture_env ''fc-1'' DATA_FORMAT_PICKLE
        [QueueEmpty, Got (PInt 1), Got (PInt 2), QueueEmpty, QueueEmpty, Got (PInt 3),
         QueueEmpty, Got (PInt 4), Got (PInt 5), GotSentinel])) \<and>
   map index (data_chunks
     (fst (generator_output_task fixture_env ''fc-1'' DATA_FORMAT_PICKLE
        [QueueEmpty, Got (PInt 1), Got (PInt 2), QueueEmpty, QueueEmpty, Got (PInt 3),
         QueueEmpty, Got (PInt 4), Got (PInt 5), GotSentinel]) ! 2)) = [1 + 3, 1 + 3 + 1] \<and>
   sorted_wrt (<)
     (map index (concat (map data_chunks
        (fst (generator_output_task fixture_env ''fc-1'' DATA_FORMAT_PICKLE
           [QueueEmpty, Got (PInt 1), Got (PInt 2), QueueEmpty, QueueEmpty, Got (PInt 3),
            QueueEmpty, Got (PInt 4), Got (PInt 5), GotSentinel])))))"
proof -
  note sorted = generator_chunk_indices
      [of fixture_env "''fc-1''" DATA_FORMAT_PICKLE
        "[QueueEmpty, Got (PInt 1), Got (PInt 2), QueueEmpty, QueueEmpty, Got (PInt 3),
         QueueEmpty, Got (PInt 4), Got (PInt 5), GotSentinel]",
       THEN conjunct2, THEN conjunct2]
  have "map (\<lambda>r. map index (data_chunks r))
     (fst (generator_output_task fixture_env ''fc-1'' DATA_FORMAT_PICKLE
        [QueueEmpty, Got (PInt 1), Got (PInt 2), QueueEmpty, QueueEmpty, Got (PInt 3),
         QueueEmpty, Got (PInt 4), Got (PInt 5), GotSentinel])) = [[1, 2], [3], [4, 5]]"
    and "2 < length (fst (generator_output_task fixture_env ''fc-1'' DATA_FORMAT_PICKLE
        [QueueEmpty, Got (PInt 1), Got (PInt 2), QueueEmpty, QueueEmpty, Got (PInt 3),
         QueueEmpty, Got (PInt 4), Got (PInt 5), GotSentinel]))"
    unfolding fixture_stream by simp_all
  note facts = this
  from generator_chunk_indices
      [of fixture_env "''fc-1''" DATA_FORMAT_PICKLE
        "[QueueEmpty, Got (PInt 1), Got (PInt 2), QueueEmpty, QueueEmpty, Got (PInt 3),
         QueueEmpty, Got (PInt 4), Got (PInt 5), GotSentinel]",
       THEN conjunct1, THEN spec, of 2, THEN mp, OF facts(2), THEN conjunct2]
  have third: "map index (data_chunks
     (fst (generator_output_task fixture_env ''fc-1'' DATA_FORMAT_PICKLE
        [QueueEmpty, Got (PInt 1), Got (PInt 2), QueueEmpty, QueueEmpty, Got (PInt 3),
         QueueEmpty, Got (PInt 4), Got (PInt 5), GotSentinel]) ! 2)) = [1 + 3, 1 + 3 + 1]"
    unfolding fixture_stream by simp
  from facts third sorted show ?thesis
    by (intro conjI)
qed

section \<open>Heartbeats pause for the memory snapshot\<close>

text \<open>
  The lock is held by the heartbeat task exactly while its request is awaited, and by
  \<^verbatim>\<open>memory_snapshot\<close> exactly from the setting of the flag to the end of the restore;
  and no request is awaited while the flag is set.
\<close>

lemma lock_discipline:
  "reachable s \<Longrightarrow>
   (heartbeat_at s = HB_Request) = (lock_owner s = Some HeartbeatTask) \<and>
   (snapshot_at s \<in> {SN_Checkpoint, SN_Closing, SN_Restoring}) = (lock_owner s = Some SnapshotTask) \<and>
   (heartbeat_at s = HB_Request \<longrightarrow> \<not> waiting_for_memory_snapshot s)"
proof (induction rule: reachable.induct)
  case (start b)
  show ?case by (simp add: heartbeats_def)
next
  case (step s s')
  from step.hyps(2) consider "s' \<in> set (heartbeat_steps s)" | "s' \<in> set (snapshot_steps s)"
    by (auto simp: successors_def)
  then show ?case
  proof cases
    case 1
    with step.IH show ?thesis
      by (cases "heartbeat_at s")
         (auto simp: heartbeat_steps_def heartbeat_locked_def split: if_splits)
  next
    case 2
    with step.IH show ?thesis
      by (cases "snapshot_at s")
         (auto simp: snapshot_steps_def snapshot_locked_def snapshot_raised_def
            snapshot_restored_def notify_all_def split: if_splits)
  qed
qed

text \<open>
  C1. In every state that the two tasks can reach, from either initial value of the
  flag: while a \<^verbatim>\<open>ContainerHeartbeat\<close> request is awaited the flag
  \<^verbatim>\<open>_waiting_for_memory_snapshot\<close> is false and the heartbeat task holds the lock; and a
  step that starts the request starts from a state with the flag false and leaves it
  false.
\<close>

theorem no_heartbeat_while_waiting_for_snapshot:
  "reachable s \<Longrightarrow>
   (heartbeat_at s = HB_Request \<longrightarrow>
      \<not> waiting_for_memory_snapshot s \<and> lock_owner s = Some HeartbeatTask) \<and>
   (\<forall>s' \<in> set (successors s).
      heartbeat_at s \<noteq> HB_Request \<and> heartbeat_at s' = HB_Request \<longrightarrow>
      \<not> waiting_for_memory_snapshot s \<and> \<not> waiting_for_memory_snapshot s')"
proof (intro conjI ballI impI)
  assume r: "reachable s"
  assume "heartbeat_at s = HB_Request"
  with lock_discipline [OF r]
  show "\<not> waiting_for_memory_snapshot s" and "lock_owner s = Some HeartbeatTask"
    by simp_all
next
  fix s'
  assume r: "reachable s" and s': "s' \<in> set (successors s)"
    and enter: "heartbeat_at s \<noteq> HB_Request \<and> heartbeat_at s' = HB_Request"
  have "reachable s'"
    using r s' by (rule reachable.step)
  from lock_discipline [OF this] enter
  show "\<not> waiting_for_memory_snapshot s'" by simp
  from s' consider "s' \<in> set (heartbeat_steps s)" | "s' \<in> set (snapshot_steps s)"
    by (auto simp: successors_def)
  then show "\<not> waiting_for_memory_snapshot s"
  proof cases
    case 1
    with enter show ?thesis
      by (cases "heartbeat_at s")
         (auto simp: heartbeat_steps_def heartbeat_locked_def split: if_splits)
  next
    case 2
    with enter show ?thesis
      by (cases "snapshot_at s")
         (auto simp: snapshot_steps_def snapshot_locked_def snapshot_raised_def
            snapshot_restored_def notify_all_def split: if_splits)
  qed
qed

text \<open>
  A run that the statement speaks about: the loop starts with the flag set and parks in
  \<^verbatim>\<open>wait()\<close>; the snapshot takes the lock, notifies, checkpoints, closes the client and
  restores; it clears the flag and leaves; only then does the heartbeat task get the
  lock and send its request.
\<close>

theorem no_heartbeat_while_waiting_for_snapshot_witness:
  "reachable \<lparr>waiting_for_memory_snapshot = True, lock_owner = Some SnapshotTask,
      heartbeat_at = HB_Notified, snapshot_at = SN_Restoring\<rparr> \<and>
   reachable \<lparr>waiting_for_memory_snapshot = False, lock_owner = None,
      heartbeat_at = HB_Notified, snapshot_at = SN_NotRunning\<rparr> \<and>
   \<lparr>waiting_for_memory_snapshot = False, lock_owner = Some HeartbeatTask,
      heartbeat_at = HB_Request, snapshot_at = SN_NotRunning\<rparr>
     \<in> set (successors \<lparr>waiting_for_memory_snapshot = False, lock_owner = None,
      heartbeat_at = HB_Notified, snapshot_at = SN_NotRunning\<rparr>) \<and>
   reachable \<lparr>waiting_for_memory_snapshot = False, lock_owner = Some HeartbeatTask,
      heartbeat_at = HB_Request, snapshot_at = SN_NotRunning\<rparr> \<and>
   heartbeat_at \<lparr>waiting_for_memory_snapshot = False, lock_owner = Some HeartbeatTask,
      heartbeat_at = HB_Request, snapshot_at = SN_NotRunning\<rparr> = HB_Request \<and>
   \<not> waiting_for_memory_snapshot \<lparr>waiting_for_memory_snapshot = False,
      lock_owner = Some HeartbeatTask, heartbeat_at = HB_Request,
      snapshot_at = SN_NotRunning\<rparr>"
proof -
  have r0: "reachable \<lparr>waiting_for_memory_snapshot = True, lock_owner = None,
      heartbeat_at = HB_Outside, snapshot_at = SN_NotRunning\<rparr>"
    using reachable.start [of True] by (simp add: heartbeats_def)
  have r1: "reachable \<lparr>waiting_for_memory_snapshot = True, lock_owner = None,
      heartbeat_at = HB_CondWait, snapshot_at = SN_NotRunning\<rparr>"
    by (rule reachable.step [OF r0])
       (simp add: successors_def heartbeat_steps_def heartbeat_locked_def)
  have r2: "reachable \<lparr>waiting_for_memory_snapshot = True, lock_owner = Some SnapshotTask,
      heartbeat_at = HB_Notified, snapshot_at = SN_Checkpoint\<rparr>"
    by (rule reachable.step [OF r1])
       (simp add: successors_def snapshot_steps_def snapshot_locked_def notify_all_def)
  have r3: "reachable \<lparr>waiting_for_memory_snapshot = True, lock_owner = Some SnapshotTask,
      heartbeat_at = HB_Notified, snapshot_at = SN_Closing\<rparr>"
    by (rule reachable.step [OF r2]) (simp add: successors_def snapshot_steps_def)
  have r4: "reachable \<lparr>waiting_for_memory_snapshot = True, lock_owner = Some SnapshotTask,
      heartbeat_at = HB_Notified, snapshot_at = SN_Restoring\<rparr>"
    by (rule reachable.step [OF r3]) (simp add: successors_def snapshot_steps_def)
  have r5: "reachable \<lparr>waiting_for_memory_snapshot = False, lock_owner = None,
      heartbeat_at = HB_Notified, snapshot_at = SN_NotRunning\<rparr>"
    by (rule reachable.step [OF r4])
       (simp add: successors_def snapshot_steps_def snapshot_restored_def notify_all_def)
  have m: "\<lparr>waiting_for_memory_snapshot = False, lock_owner = Some HeartbeatTask,
      heartbeat_at = HB_Request, snapshot_at = SN_NotRunning\<rparr>
     \<in> set (successors \<lparr>waiting_for_memory_snapshot = False, lock_owner = None,
      heartbeat_at = HB_Notified, snapshot_at = SN_NotRunning\<rparr>)"
    by (simp add: successors_def heartbeat_steps_def heartbeat_locked_def)
  have r6: "reachable \<lparr>waiting_for_memory_snapshot = False, lock_owner = Some HeartbeatTask,
      heartbeat_at = HB_Request, snapshot_at = SN_NotRunning\<rparr>"
    by (rule reachable.step [OF r5 m])
  from no_heartbeat_while_waiting_for_snapshot [OF r6, THEN conjunct1]
  have "\<not> waiting_for_memory_snapshot \<lparr>waiting_for_memory_snapshot = False,
      lock_owner = Some HeartbeatTask, heartbeat_at = HB_Request,
      snapshot_at = SN_NotRunning\<rparr>"
    by simp
  with r4 r5 m r6 show ?thesis
    by simp
qed

end
